theory Spec2Isabelle
  imports Complex_Main "HOL-Library.Log_Nat"
begin

section \<open>Hysteresis-loop data reduction: the loop geometry routines\<close>

text \<open>
  The scripts under \<^verbatim>\<open>ferromagnetic_hysteresis/\<close> work on two paired measurement
  series. The source computes with IEEE doubles (numpy's \<^verbatim>\<open>float64\<close>); the
  specification describes the series as sequences of real numbers.

  Two embeddings of the numeric routines follow. The first computes with the exact
  operations of the reals on \<^typ>\<open>real list\<close>: it is the code run in exact arithmetic,
  and serves for the properties that rounding does not touch. The second, whose names end
  in \<open>_f64\<close>, computes with doubles: every \<open>+\<close>, \<open>-\<close>, \<open>*\<close>, \<open>/\<close> rounds to the nearest
  double, a tie going to the even one, overflows to an infinity and underflows
  gradually to zero, as the source's arithmetic does.

  What the Python can raise is a value of the model: an index outside a sequence is
  \<open>IndexError\<close>, a reduction over an empty array is \<open>ValueError\<close>. A division whose
  divisor is zero is the result \<open>ZeroDivision\<close>, so that "this division is never by zero"
  is a statement about the result of a function.
\<close>

datatype py_error = IndexError | ValueError | ZeroDivision

definition bind :: "py_error + 'a \<Rightarrow> ('a \<Rightarrow> py_error + 'b) \<Rightarrow> py_error + 'b" where
  "bind m f = (case m of Inl e \<Rightarrow> Inl e | Inr x \<Rightarrow> f x)"

text \<open>\<^verbatim>\<open>xs[i]\<close> for an index that is never negative.\<close>

definition getitem :: "'a list \<Rightarrow> nat \<Rightarrow> py_error + 'a" where
  "getitem xs i = (if i < length xs then Inr (xs ! i) else Inl IndexError)"

text \<open>\<^verbatim>\<open>x / y\<close>.\<close>

definition py_divide :: "real \<Rightarrow> real \<Rightarrow> py_error + real" where
  "py_divide x y = (if y = 0 then Inl ZeroDivision else Inr (x / y))"

text \<open>\<^verbatim>\<open>xs[lo:hi]\<close> for bounds that are never negative: a slice is clipped, it never raises.\<close>

definition slice :: "'a list \<Rightarrow> nat \<Rightarrow> nat \<Rightarrow> 'a list" where
  "slice xs lo hi = drop lo (take hi xs)"

text \<open>\<^verbatim>\<open>np.max(xs)\<close>: the largest element, \<open>ValueError\<close> on an empty array.\<close>

definition np_max :: "real list \<Rightarrow> py_error + real" where
  "np_max xs = (case xs of [] \<Rightarrow> Inl ValueError | x # rest \<Rightarrow> Inr (fold max rest x))"

text \<open>\<^verbatim>\<open>range(n)\<close> for a Python integer \<open>n\<close>, empty when \<open>n \<le> 0\<close>.\<close>

definition py_range :: "int \<Rightarrow> nat list" where
  "py_range n = [0..<nat n]"

subsection \<open>Crossing detection\<close>

text \<open>
  \<^verbatim>\<open>find_main_hysteresis_crossings\<close> (find_proper_remanence.py) looks for the zeros of
  \<open>h\<close> and interpolates \<open>b\<close>; \<^verbatim>\<open>find_main_coercivity_crossings\<close>
  (calculate_coercivity.py) is the same text with the two arrays exchanged: it looks for
  the zeros of \<open>b\<close> and interpolates \<open>h\<close>. Below, \<open>a\<close> is the array whose zeros are
  sought and \<open>p\<close> the paired array.

  A crossing is the tuple \<^verbatim>\<open>(i, p_at_zero, max_p_before)\<close>.
\<close>

type_synonym crossing = "nat \<times> real \<times> real"

definition c_index :: "crossing \<Rightarrow> nat" where
  "c_index c = fst c"

definition c_value :: "crossing \<Rightarrow> real" where
  "c_value c = fst (snd c)"

definition c_salience :: "crossing \<Rightarrow> real" where
  "c_salience c = snd (snd c)"

text \<open>
  The test of the loop body, \<^verbatim>\<open>(a[i] * a[i+1] <= 0) and (a[i] != a[i+1])\<close>.
\<close>

definition is_crossing :: "real \<Rightarrow> real \<Rightarrow> bool" where
  "is_crossing ai aj = (ai * aj \<le> 0 \<and> ai \<noteq> aj)"

text \<open>
  \<^verbatim>\<open>window_start = max(0, i - 50)\<close>, computed on Python's integers.
\<close>

definition window_start :: "nat \<Rightarrow> nat" where
  "window_start i = nat (max 0 (int i - 50))"

text \<open>
  One iteration of the detection loop: \<open>None\<close> when the pair \<open>(i, i+1)\<close> is not
  flagged, the crossing record otherwise.
  \<^verbatim>\<open>
  if (a[i] * a[i+1] <= 0) and (a[i] != a[i+1]):
      p_at_zero = p[i] + (p[i+1] - p[i]) * (-a[i]) / (a[i+1] - a[i])
      window_start = max(0, i - 50)
      max_p_before = np.max(np.abs(p[window_start:i+1]))
      crossings.append((i, p_at_zero, max_p_before))
  \<close>
\<close>

definition crossing_at :: "real list \<Rightarrow> real list \<Rightarrow> nat \<Rightarrow> py_error + crossing option" where
  "crossing_at a p i =
     bind (getitem a i) (\<lambda>a_i.
     bind (getitem a (i + 1)) (\<lambda>a_j.
       if is_crossing a_i a_j then
         bind (getitem p i) (\<lambda>p_i.
         bind (getitem p (i + 1)) (\<lambda>p_j.
         bind (py_divide ((p_j - p_i) * (- a_i)) (a_j - a_i)) (\<lambda>q.
         bind (np_max (map abs (slice p (window_start i) (i + 1)))) (\<lambda>m.
           Inr (Some (i, p_i + q, m))))))
       else Inr None))"

text \<open>
  The detection loop over \<^verbatim>\<open>range(len(a) - 1)\<close>, appending to \<^verbatim>\<open>crossings\<close>.
\<close>

fun crossings_loop ::
  "real list \<Rightarrow> real list \<Rightarrow> nat list \<Rightarrow> crossing list \<Rightarrow> py_error + crossing list" where
  "crossings_loop a p [] crossings = Inr crossings"
| "crossings_loop a p (i # rest) crossings =
     (case crossing_at a p i of
        Inl e \<Rightarrow> Inl e
      | Inr None \<Rightarrow> crossings_loop a p rest crossings
      | Inr (Some c) \<Rightarrow> crossings_loop a p rest (crossings @ [c]))"

definition find_crossings :: "real list \<Rightarrow> real list \<Rightarrow> py_error + crossing list" where
  "find_crossings a p = crossings_loop a p (py_range (int (length a) - 1)) []"

subsection \<open>Main-loop branch classification\<close>

text \<open>
  \<^verbatim>\<open>sorted(crossings, key=lambda x: x[2], reverse=True)\<close>: descending by the third
  component. Python's sort is stable and stays so under \<^verbatim>\<open>reverse=True\<close>: crossings
  with equal keys keep their order in \<^verbatim>\<open>crossings\<close>. A stable ascending sort on the
  negated key does the same.
\<close>

definition sorted_desc :: "crossing list \<Rightarrow> crossing list" where
  "sorted_desc crossings = sort_key (\<lambda>c. - c_salience c) crossings"

text \<open>
  The selection loop. The second argument is \<^verbatim>\<open>main_crossings\<close>; the equation that
  returns without a recursive call is the \<^verbatim>\<open>break\<close>.
  \<^verbatim>\<open>
  for crossing in crossings_sorted:
      v = crossing[1]
      if not main_crossings:
          main_crossings.append(v)
      else:
          if len(main_crossings) == 1:
              if v * main_crossings[0] < 0:
                  main_crossings.append(v)
                  break
  \<close>
\<close>

fun select_main :: "crossing list \<Rightarrow> real list \<Rightarrow> real list" where
  "select_main [] main_crossings = main_crossings"
| "select_main (crossing # rest) main_crossings =
     (if main_crossings = [] then select_main rest (main_crossings @ [c_value crossing])
      else if length main_crossings = 1 then
        (if c_value crossing * hd main_crossings < 0
         then main_crossings @ [c_value crossing]
         else select_main rest main_crossings)
      else select_main rest main_crossings)"

text \<open>
  The end of the function: the positive one of the two values is \<open>plus\<close>.
  \<^verbatim>\<open>
  if len(main_crossings) >= 2:
      if main_crossings[0] > 0: return main_crossings[0], main_crossings[1]
      else:                     return main_crossings[1], main_crossings[0]
  return 0.0, 0.0
  \<close>
\<close>

definition assign_branches :: "real list \<Rightarrow> real \<times> real" where
  "assign_branches main_crossings =
     (if length main_crossings \<ge> 2 then
        (if main_crossings ! 0 > 0 then (main_crossings ! 0, main_crossings ! 1)
         else (main_crossings ! 1, main_crossings ! 0))
      else (0, 0))"

definition classify :: "crossing list \<Rightarrow> real \<times> real" where
  "classify crossings =
     (if crossings = [] then (0, 0)
      else assign_branches (select_main (sorted_desc crossings) []))"

definition find_main_crossings :: "real list \<Rightarrow> real list \<Rightarrow> py_error + real \<times> real" where
  "find_main_crossings a p = bind (find_crossings a p) (\<lambda>crossings. Inr (classify crossings))"

text \<open>The two functions of the source, each returning \<open>(plus, minus)\<close>.\<close>

definition find_main_hysteresis_crossings ::
  "real list \<Rightarrow> real list \<Rightarrow> py_error + real \<times> real" where
  "find_main_hysteresis_crossings h_values b_values = find_main_crossings h_values b_values"

definition find_main_coercivity_crossings ::
  "real list \<Rightarrow> real list \<Rightarrow> py_error + real \<times> real" where
  "find_main_coercivity_crossings h_values b_values = find_main_crossings b_values h_values"

text \<open>
  The derived quantities printed by every \<^verbatim>\<open>main\<close>:
  \<^verbatim>\<open>(plus + abs(minus)) / 2\<close> and \<^verbatim>\<open>abs(plus - abs(minus)) / 2\<close>.
\<close>

definition midpoint :: "real \<Rightarrow> real \<Rightarrow> real" where
  "midpoint v_plus v_minus = (v_plus + \<bar>v_minus\<bar>) / 2"

definition uncertainty :: "real \<Rightarrow> real \<Rightarrow> real" where
  "uncertainty v_plus v_minus = \<bar>v_plus - \<bar>v_minus\<bar>\<bar> / 2"

subsection \<open>The first-two-crossings remanence (calculate_remanence.py)\<close>

text \<open>
  One iteration of the loop of \<^verbatim>\<open>find_remanence\<close>:
  \<^verbatim>\<open>
  if (h[i] <= 0 <= h[i+1]) or (h[i+1] <= 0 <= h[i]):
      if h[i+1] != h[i]:
          b_at_zero = b[i] + (b[i+1] - b[i]) * (0 - h[i]) / (h[i+1] - h[i])
          zero_crossings.append(b_at_zero)
  \<close>
\<close>

definition remanence_at :: "real list \<Rightarrow> real list \<Rightarrow> nat \<Rightarrow> py_error + real option" where
  "remanence_at h b i =
     bind (getitem h i) (\<lambda>hi.
     bind (getitem h (i + 1)) (\<lambda>hj.
       if (hi \<le> 0 \<and> 0 \<le> hj) \<or> (hj \<le> 0 \<and> 0 \<le> hi) then
         (if hj \<noteq> hi then
            bind (getitem b i) (\<lambda>bi.
            bind (getitem b (i + 1)) (\<lambda>bj.
            bind (py_divide ((bj - bi) * (0 - hi)) (hj - hi)) (\<lambda>q.
              Inr (Some (bi + q)))))
          else Inr None)
       else Inr None))"

fun remanence_loop ::
  "real list \<Rightarrow> real list \<Rightarrow> nat list \<Rightarrow> real list \<Rightarrow> py_error + real list" where
  "remanence_loop h b [] zero_crossings = Inr zero_crossings"
| "remanence_loop h b (i # rest) zero_crossings =
     (case remanence_at h b i of
        Inl e \<Rightarrow> Inl e
      | Inr None \<Rightarrow> remanence_loop h b rest zero_crossings
      | Inr (Some z) \<Rightarrow> remanence_loop h b rest (zero_crossings @ [z]))"

definition zero_crossings :: "real list \<Rightarrow> real list \<Rightarrow> py_error + real list" where
  "zero_crossings h b = remanence_loop h b (py_range (int (length h) - 1)) []"

text \<open>
  \<^verbatim>\<open>np.argmin(xs)\<close>: the first index of the smallest element, \<open>ValueError\<close> on an
  empty array.
\<close>

fun argmin_from :: "real list \<Rightarrow> nat \<Rightarrow> nat \<Rightarrow> real \<Rightarrow> nat" where
  "argmin_from [] i best best_val = best"
| "argmin_from (x # xs) i best best_val =
     (if x < best_val then argmin_from xs (i + 1) i x else argmin_from xs (i + 1) best best_val)"

definition np_argmin :: "real list \<Rightarrow> py_error + nat" where
  "np_argmin xs = (case xs of [] \<Rightarrow> Inl ValueError | x # rest \<Rightarrow> Inr (argmin_from rest 1 0 x))"

text \<open>
  \<^verbatim>\<open>
  if len(zero_crossings) >= 2:   return zero_crossings[0], zero_crossings[1]
  elif len(zero_crossings) == 1: return zero_crossings[0], zero_crossings[0]
  else:
      closest_idx = np.argmin(np.abs(h))
      return b[closest_idx], b[closest_idx]
  \<close>
\<close>

definition find_remanence :: "real list \<Rightarrow> real list \<Rightarrow> py_error + real \<times> real" where
  "find_remanence h b =
     bind (zero_crossings h b) (\<lambda>zs.
       if length zs \<ge> 2 then Inr (zs ! 0, zs ! 1)
       else if length zs = 1 then Inr (zs ! 0, zs ! 0)
       else bind (np_argmin (map abs h)) (\<lambda>closest_idx.
            bind (getitem b closest_idx) (\<lambda>v. Inr (v, v))))"

subsection \<open>The specification's formulas\<close>

text \<open>
  The definitions of this subsection follow the words of the specification, not the
  code; the theorems compare the code with them.

  Interpolated paired value:
  \<^verbatim>\<open>b[i] + (b[i+1]-b[i]) * (0 - a[i]) / (a[i+1]-a[i])\<close>.
\<close>

definition spec_interpolation :: "real list \<Rightarrow> real list \<Rightarrow> nat \<Rightarrow> real" where
  "spec_interpolation a b i = b ! i + (b ! (i + 1) - b ! i) * (0 - a ! i) / (a ! (i + 1) - a ! i)"

text \<open>
  Salience score: the maximum absolute value of \<open>b\<close> over the window
  \<^verbatim>\<open>[max(0, i-50), i]\<close>, both ends included.
\<close>

definition spec_salience :: "real list \<Rightarrow> nat \<Rightarrow> real" where
  "spec_salience b i = Max ((\<lambda>k. \<bar>b ! k\<bar>) ` {k. window_start i \<le> k \<and> k \<le> i})"

text \<open>
  A crossing exists at \<open>(i, i+1)\<close> when \<open>a[i]\<close> and \<open>a[i+1]\<close> have opposite sign or
  either is exactly zero, and \<open>a[i] \<noteq> a[i+1]\<close>.
\<close>

definition opposite_sign :: "real \<Rightarrow> real \<Rightarrow> bool" where
  "opposite_sign x y = ((x < 0 \<and> 0 < y) \<or> (0 < x \<and> y < 0))"


text \<open>The pairs that the loop of the code flags, and the record it appends for one.\<close>

definition flagged :: "real list \<Rightarrow> nat \<Rightarrow> bool" where
  "flagged a i = is_crossing (a ! i) (a ! (i + 1))"

definition crossing_record :: "real list \<Rightarrow> real list \<Rightarrow> nat \<Rightarrow> crossing" where
  "crossing_record a p i = (i, spec_interpolation a p i, spec_salience p i)"

text \<open>
  The second main branch value as the specification words it: scanning the remaining
  crossings in order, the value of the first one whose interpolated value has the
  opposite sign from the first value \<open>v\<close>; nothing when there is none.
\<close>

definition second_branch :: "crossing list \<Rightarrow> real \<Rightarrow> real list" where
  "second_branch rest v =
     (case find (\<lambda>c. opposite_sign (c_value c) v) rest of None \<Rightarrow> [] | Some c \<Rightarrow> [c_value c])"

subsection \<open>Enclosed area (calculate_hysteresis_area.py, recalculate_area.py)\<close>

text \<open>
  The loop shared by the two area functions, with \<^verbatim>\<open>n = len(h)\<close>:
  \<^verbatim>\<open>
  for i in range(n):
      j = (i + 1) % n
      area += h[i] * b[j]
      area -= h[j] * b[i]
  \<close>
\<close>

fun shoelace_loop :: "real list \<Rightarrow> real list \<Rightarrow> nat \<Rightarrow> nat list \<Rightarrow> real \<Rightarrow> py_error + real" where
  "shoelace_loop h b n [] area = Inr area"
| "shoelace_loop h b n (i # rest) area =
     (let j = (i + 1) mod n in
      case getitem h i of Inl e \<Rightarrow> Inl e | Inr hi \<Rightarrow>
      case getitem b j of Inl e \<Rightarrow> Inl e | Inr bj \<Rightarrow>
      case getitem h j of Inl e \<Rightarrow> Inl e | Inr hj \<Rightarrow>
      case getitem b i of Inl e \<Rightarrow> Inl e | Inr bi \<Rightarrow>
        shoelace_loop h b n rest (area + hi * bj - hj * bi))"

text \<open>
  \<^verbatim>\<open>calculate_area_shoelace\<close> (recalculate_area.py): no guard on the length, the
  result is \<^verbatim>\<open>abs(area) / 2.0\<close>.
\<close>

definition calculate_area_shoelace :: "real list \<Rightarrow> real list \<Rightarrow> py_error + real" where
  "calculate_area_shoelace h b =
     bind (shoelace_loop h b (length h) (py_range (int (length h))) 0) (\<lambda>area. Inr (\<bar>area\<bar> / 2))"

text \<open>
  \<^verbatim>\<open>calculate_hysteresis_area\<close> (calculate_hysteresis_area.py): the same loop behind
  \<^verbatim>\<open>if len(h_values) < 3 or len(b_values) < 3: return 0.0\<close>.
\<close>

definition calculate_hysteresis_area :: "real list \<Rightarrow> real list \<Rightarrow> py_error + real" where
  "calculate_hysteresis_area h_values b_values =
     (if length h_values < 3 \<or> length b_values < 3 then Inr 0
      else bind (shoelace_loop h_values b_values (length h_values)
                   (py_range (int (length h_values))) 0)
             (\<lambda>area. Inr (\<bar>area\<bar> / 2)))"

text \<open>
  The specification's formula: the sum over \<open>i\<close> of
  \<open>h[i]*b[(i+1)%n] - h[(i+1)%n]*b[i]\<close>, and half its absolute value.
\<close>

definition shoelace_term :: "real list \<Rightarrow> real list \<Rightarrow> nat \<Rightarrow> real" where
  "shoelace_term h b i =
     h ! i * b ! ((i + 1) mod length h) - h ! ((i + 1) mod length h) * b ! i"

definition signed_sum :: "real list \<Rightarrow> real list \<Rightarrow> real" where
  "signed_sum h b = (\<Sum>i<length h. shoelace_term h b i)"

definition spec_area :: "real list \<Rightarrow> real list \<Rightarrow> real" where
  "spec_area h b = \<bar>signed_sum h b\<bar> / 2"

text \<open>
  What negating a dataset does to a crossing record and to a pair \<open>(plus, minus)\<close> of
  the classifier: the interpolated value changes sign; the two outputs change sign and
  exchange their places.
\<close>

definition negate_crossing :: "crossing \<Rightarrow> crossing" where
  "negate_crossing c = (c_index c, - c_value c, c_salience c)"

definition swap_negate :: "real \<times> real \<Rightarrow> real \<times> real" where
  "swap_negate r = (- snd r, - fst r)"

text \<open>
  The index at which the reversed polygon holds the edge that the polygon holds at
  \<open>i\<close>: the edge from vertex \<open>i\<close> to its successor, traversed backwards.
\<close>

definition mirror :: "nat \<Rightarrow> nat \<Rightarrow> nat" where
  "mirror n i = (if Suc i < n then n - 2 - i else n - 1)"

subsection \<open>Text: the helpers of the reader and of the negation script\<close>

text \<open>
  Python strings are sequences of code points; here a character is a \<^typ>\<open>char\<close>, a
  code point below 256, which covers the ASCII text of the instrument's export files.

  \<^verbatim>\<open>str.isspace\<close> on these code points: tab, line feed, vertical tab, form feed,
  carriage return, the four separators 0x1c..0x1f, space, and the Latin-1 characters
  0x85 and 0xa0.
\<close>

definition is_space :: "char \<Rightarrow> bool" where
  "is_space c = (of_char c \<in> {9, 10, 11, 12, 13, 28, 29, 30, 31, 32, 133, 160 :: nat})"

text \<open>\<^verbatim>\<open>s.strip()\<close>: leading and trailing whitespace removed.\<close>

definition strip :: "string \<Rightarrow> string" where
  "strip s = rev (dropWhile is_space (rev (dropWhile is_space s)))"

text \<open>
  \<^verbatim>\<open>s.lower()\<close>: on code points below 256 the letters \<open>A..Z\<close> and the Latin-1
  capitals 0xc0..0xde (without the multiplication sign 0xd7) move up by 32.
\<close>

definition to_lower :: "char \<Rightarrow> char" where
  "to_lower c =
     (let n = (of_char c :: nat)
      in if (65 \<le> n \<and> n \<le> 90) \<or> (192 \<le> n \<and> n \<le> 222 \<and> n \<noteq> 215)
         then char_of (n + 32) else c)"

definition lower :: "string \<Rightarrow> string" where
  "lower s = map to_lower s"

text \<open>\<^verbatim>\<open>s.split(d)\<close> for a one-character separator: never an empty list.\<close>

fun split_on :: "char \<Rightarrow> string \<Rightarrow> string list" where
  "split_on d [] = [[]]"
| "split_on d (c # cs) =
     (if c = d then [] # split_on d cs
      else (case split_on d cs of [] \<Rightarrow> [[c]] | p # ps \<Rightarrow> (c # p) # ps))"

text \<open>\<^verbatim>\<open>k in s\<close> on strings: \<open>k\<close> occurs in \<open>s\<close> as a substring.\<close>

fun contains :: "string \<Rightarrow> string \<Rightarrow> bool" where
  "contains [] k = (k = [])"
| "contains (c # cs) k = (take (length k) (c # cs) = k \<or> contains cs k)"

subsection \<open>The tabular reader (read_dataset, the same text in every script)\<close>

text \<open>
  \<^verbatim>\<open>csv.reader(handle, delimiter="\t")\<close> and \<^verbatim>\<open>float\<close> belong to Python's library, not
  to the repository. The reader is modelled from the rows that \<^verbatim>\<open>csv.reader\<close> yields,
  each a list of strings, and takes \<^verbatim>\<open>float\<close> as the parameter \<open>to_float\<close>, with
  \<open>None\<close> for \<^verbatim>\<open>ValueError\<close>.
  \<^verbatim>\<open>
  for row in reader:
      if not row or len(row) < 2: continue
      if row[0].strip().lower() in {"current", "i/a"}: continue
      if row[1].strip().lower() in {"flux density b", "b/mt"}: continue
      try:
          current = float(row[0].strip())
          flux = float(row[1].strip())
      except ValueError:
          continue
      currents.append(current)
      fluxes.append(flux)
  return currents, fluxes
  \<close>
\<close>

fun read_rows ::
  "(string \<Rightarrow> 'v option) \<Rightarrow> string list list \<Rightarrow> 'v list \<Rightarrow> 'v list \<Rightarrow> 'v list \<times> 'v list" where
  "read_rows to_float [] currents fluxes = (currents, fluxes)"
| "read_rows to_float (row # rest) currents fluxes =
     (if row = [] \<or> length row < 2 then read_rows to_float rest currents fluxes
      else if lower (strip (row ! 0)) \<in> {''current'', ''i/a''}
        then read_rows to_float rest currents fluxes
      else if lower (strip (row ! 1)) \<in> {''flux density b'', ''b/mt''}
        then read_rows to_float rest currents fluxes
      else (case to_float (strip (row ! 0)) of
              None \<Rightarrow> read_rows to_float rest currents fluxes
            | Some current \<Rightarrow>
                (case to_float (strip (row ! 1)) of
                   None \<Rightarrow> read_rows to_float rest currents fluxes
                 | Some flux \<Rightarrow>
                     read_rows to_float rest (currents @ [current]) (fluxes @ [flux]))))"

definition read_dataset ::
  "(string \<Rightarrow> 'v option) \<Rightarrow> string list list \<Rightarrow> 'v list \<times> 'v list" where
  "read_dataset to_float rows = read_rows to_float rows [] []"

text \<open>
  A header row in the words of the specification: its first token, stripped and
  lower-cased, is one of \<open>current\<close>, \<open>i/a\<close>, or its second token is one of
  \<open>flux density b\<close>, \<open>b/mt\<close>.
\<close>

definition header_row :: "string list \<Rightarrow> bool" where
  "header_row row =
     ((length row \<ge> 1 \<and> lower (strip (row ! 0)) \<in> {''current'', ''i/a''})
      \<or> (length row \<ge> 2 \<and> lower (strip (row ! 1)) \<in> {''flux density b'', ''b/mt''}))"

subsection \<open>The negation script (negate_run2softiron.py)\<close>

text \<open>
  A value returned by \<^verbatim>\<open>float\<close>: a finite number with its sign bit and magnitude, an
  infinity with its sign, or NaN. Unary minus flips the sign.
\<close>

datatype pyfloat = Finite bool real | Infinite bool | NaN

fun negate :: "pyfloat \<Rightarrow> pyfloat" where
  "negate (Finite s m) = Finite (\<not> s) m"
| "negate (Infinite s) = Infinite (\<not> s)"
| "negate NaN = NaN"

text \<open>Decimal digits of a number that is not negative, as \<^verbatim>\<open>str\<close> prints them.\<close>

definition digit_char :: "int \<Rightarrow> char" where
  "digit_char d = char_of (48 + d)"

function show_nat :: "int \<Rightarrow> string" where
  "show_nat n = (if n < 10 then [digit_char n] else show_nat (n div 10) @ [digit_char (n mod 10)])"
  by pat_completeness auto
termination
  by (relation "measure nat") auto

declare show_nat.simps [simp del]

text \<open>
  Rounding to the nearest integer, a tie going to the even neighbour.
  \<^verbatim>\<open>format(x, ".3f")\<close> rounds the exact value of \<open>x\<close> in this way to a multiple of one
  thousandth.
\<close>

definition round_half_even :: "real \<Rightarrow> int" where
  "round_half_even x =
     (let f = \<lfloor>x\<rfloor>; d = x - of_int f
      in if d < 1/2 then f else if 1/2 < d then f + 1
         else if even f then f else f + 1)"

text \<open>
  \<^verbatim>\<open>f"{x:.3f}"\<close>: a minus sign when the sign bit is set, the integer digits, a point
  and exactly three digits; \<^verbatim>\<open>inf\<close> and \<^verbatim>\<open>nan\<close> for the values that are not finite.
\<close>

fun format_3f :: "pyfloat \<Rightarrow> string" where
  "format_3f (Finite s m) =
     (let n = round_half_even (\<bar>m\<bar> * 1000)
      in (if s then ''-'' else '''') @ show_nat (n div 1000) @ ''.'' @
         [digit_char (n div 100 mod 10), digit_char (n div 10 mod 10), digit_char (n mod 10)])"
| "format_3f (Infinite s) = (if s then ''-'' else '''') @ ''inf''"
| "format_3f NaN = ''nan''"

text \<open>
  The body of the loop of \<^verbatim>\<open>negate_dataset\<close>, for one line of \<^verbatim>\<open>readlines()\<close>:
  \<^verbatim>\<open>
  if not line.strip() or "\t" not in line: keep
  parts = line.strip().split("\t")
  if len(parts) != 2: keep
  if any(keyword in parts[0].lower() for keyword in ["current", "i/a"]): keep
  if any(keyword in parts[1].lower() for keyword in ["flux", "b/mt"]): keep
  try:
      current = float(parts[0]); flux = float(parts[1])
      output_lines.append(f"{-current:.3f}\t{-flux:.3f}\n")
  except ValueError: keep
  \<close>
  where "keep" is \<^verbatim>\<open>output_lines.append(line); continue\<close>. The guards and the two
  conversions are \<open>numeric_fields\<close>, with \<open>None\<close> for every path that keeps the line;
  \<open>negate_line\<close> is what is appended.
\<close>

definition numeric_fields ::
  "(string \<Rightarrow> pyfloat option) \<Rightarrow> string \<Rightarrow> (pyfloat \<times> pyfloat) option" where
  "numeric_fields to_float line =
     (if strip line = [] \<or> CHR 0x09 \<notin> set line then None
      else let parts = split_on (CHR 0x09) (strip line) in
        if length parts \<noteq> 2 then None
        else if list_ex (contains (lower (parts ! 0))) [''current'', ''i/a''] then None
        else if list_ex (contains (lower (parts ! 1))) [''flux'', ''b/mt''] then None
        else (case to_float (parts ! 0) of
                None \<Rightarrow> None
              | Some current \<Rightarrow>
                  (case to_float (parts ! 1) of
                     None \<Rightarrow> None
                   | Some flux \<Rightarrow> Some (current, flux))))"

definition negate_line :: "(string \<Rightarrow> pyfloat option) \<Rightarrow> string \<Rightarrow> string" where
  "negate_line to_float line =
     (case numeric_fields to_float line of
        None \<Rightarrow> line
      | Some (current, flux) \<Rightarrow>
          format_3f (negate current) @ [CHR 0x09] @ format_3f (negate flux) @ [CHR 0x0A])"

definition negate_dataset :: "(string \<Rightarrow> pyfloat option) \<Rightarrow> string list \<Rightarrow> string list" where
  "negate_dataset to_float lines = map (negate_line to_float) lines"

text \<open>
  A stand-in for \<^verbatim>\<open>float\<close> on the plain decimal notation of the data files: optional
  surrounding whitespace, an optional sign, digits with at most one point. It is used to
  run the models on concrete lines. Python's \<^verbatim>\<open>float\<close> accepts more (exponents,
  underscores, \<^verbatim>\<open>inf\<close>, \<^verbatim>\<open>nan\<close>) and rounds to the nearest double.
\<close>

definition is_digit :: "char \<Rightarrow> bool" where
  "is_digit c = (48 \<le> (of_char c :: nat) \<and> (of_char c :: nat) \<le> 57)"

definition digits_value :: "string \<Rightarrow> int" where
  "digits_value ds = foldl (\<lambda>acc c. 10 * acc + (of_char c - 48)) 0 ds"

definition parse_decimal :: "string \<Rightarrow> pyfloat option" where
  "parse_decimal s =
     (let t = strip s;
          neg = (t \<noteq> [] \<and> hd t = CHR ''-'');
          u = (if t \<noteq> [] \<and> (hd t = CHR ''-'' \<or> hd t = CHR ''+'') then tl t else t);
          ip = takeWhile is_digit u;
          r = dropWhile is_digit u
      in case r of
           [] \<Rightarrow> if ip = [] then None else Some (Finite neg (of_int (digits_value ip)))
         | c # fp \<Rightarrow>
             if c = CHR ''.'' \<and> list_all is_digit fp \<and> (ip \<noteq> [] \<or> fp \<noteq> [])
             then Some (Finite neg (of_int (digits_value ip)
                                     + of_int (digits_value fp) / 10 ^ length fp))
             else None)"

text \<open>
  The number of characters after the last point of a field, 0 when it has no point:
  the fractional digits that a decimal numeral is written with.
\<close>

definition fraction_digits :: "string \<Rightarrow> nat" where
  "fraction_digits s =
     (if CHR ''.'' \<in> set s then length (takeWhile (\<lambda>c. c \<noteq> CHR ''.'') (rev s)) else 0)"

text \<open>The two fields of a line, as the script splits it.\<close>

definition fields :: "string \<Rightarrow> string list" where
  "fields line = split_on (CHR 0x09) (strip line)"

definition is_finite :: "pyfloat \<Rightarrow> bool" where
  "is_finite v = (case v of Finite s m \<Rightarrow> True | _ \<Rightarrow> False)"

text \<open>
  A field as \<open>format_3f\<close> writes it, seen from outside: not empty, free of whitespace,
  with at most three fractional digits. A line made of two such fields, a tab between
  them and a line feed at the end.
\<close>

definition clean_field :: "string \<Rightarrow> bool" where
  "clean_field x = (x \<noteq> [] \<and> list_all (\<lambda>c. \<not> is_space c) x \<and> fraction_digits x \<le> 3)"

definition formatted_line :: "string \<Rightarrow> bool" where
  "formatted_line line =
     (case fields line of
        [x, y] \<Rightarrow> line = x @ [CHR 0x09] @ y @ [CHR 0x0A] \<and> clean_field x \<and> clean_field y
      | _ \<Rightarrow> False)"

section \<open>The numeric routines in double arithmetic\<close>

subsection \<open>IEEE doubles\<close>

text \<open>
  A double is a \<^typ>\<open>pyfloat\<close>: \<open>Finite s m\<close> is the number of magnitude \<open>m\<close> with sign
  bit \<open>s\<close>, so that the two zeros are \<open>Finite False 0\<close> and \<open>Finite True 0\<close>.

  Rounding a magnitude to the nearest double. Doubles are spaced \<open>2 ^ (e - 52)\<close> apart
  between \<open>2 ^ e\<close> and \<open>2 ^ (e + 1)\<close>, and \<open>2 ^ - 1074\<close> apart below \<open>2 ^ - 1022\<close>.
  With \<open>n\<close> the number of whole units of \<open>2 ^ - 1074\<close> in \<open>m\<close>, the spacing at \<open>m\<close> is
  \<open>2 ^ k\<close> such units, where \<open>k\<close> is the number of bits of \<open>n\<close> beyond 53.
\<close>

definition round_mag :: "real \<Rightarrow> real" where
  "round_mag m =
     (let n = \<lfloor>m * 2 ^ 1074\<rfloor>;
          k = nat (bitlen n - 53);
          u = 2 ^ k / 2 ^ 1074
      in of_int (round_half_even (m / u)) * u)"

text \<open>
  The double nearest to the number of sign \<open>s\<close> and magnitude \<open>m\<close>: an infinity when the
  rounded magnitude leaves the range of the doubles, which end below \<open>2 ^ 1024\<close>.
\<close>

definition to_f64 :: "bool \<Rightarrow> real \<Rightarrow> pyfloat" where
  "to_f64 s m = (let r = round_mag m in if 2 ^ 1024 \<le> r then Infinite s else Finite s r)"

text \<open>
  The values of type \<^verbatim>\<open>float64\<close> among the \<^typ>\<open>pyfloat\<close>: a finite one has a magnitude
  that rounding leaves as it is.
\<close>

definition is_f64 :: "pyfloat \<Rightarrow> bool" where
  "is_f64 x =
     (case x of Finite s m \<Rightarrow> 0 \<le> m \<and> round_mag m = m \<and> m < 2 ^ 1024 | _ \<Rightarrow> True)"

definition is_nan :: "pyfloat \<Rightarrow> bool" where
  "is_nan x = (case x of NaN \<Rightarrow> True | _ \<Rightarrow> False)"

text \<open>
  The position of a double on the number line, for comparisons: the two zeros coincide,
  the infinities lie beyond every finite double. NaN has no position; comparisons test
  for it first.
\<close>

definition f64_value :: "pyfloat \<Rightarrow> real" where
  "f64_value x =
     (case x of
        Finite s m \<Rightarrow> (if s then - m else m)
      | Infinite s \<Rightarrow> (if s then - (2 ^ 1024) else 2 ^ 1024)
      | NaN \<Rightarrow> 0)"

definition f64_lt :: "pyfloat \<Rightarrow> pyfloat \<Rightarrow> bool" where
  "f64_lt x y = (\<not> is_nan x \<and> \<not> is_nan y \<and> f64_value x < f64_value y)"

definition f64_le :: "pyfloat \<Rightarrow> pyfloat \<Rightarrow> bool" where
  "f64_le x y = (\<not> is_nan x \<and> \<not> is_nan y \<and> f64_value x \<le> f64_value y)"

definition f64_eq :: "pyfloat \<Rightarrow> pyfloat \<Rightarrow> bool" where
  "f64_eq x y = (\<not> is_nan x \<and> \<not> is_nan y \<and> f64_value x = f64_value y)"

definition f64_zero :: pyfloat where
  "f64_zero = Finite False 0"

text \<open>
  Addition. An exact sum of zero is \<open>+0\<close>, except that \<open>-0 + -0\<close> is \<open>-0\<close>; infinities of
  opposite sign add up to NaN.
\<close>

fun f64_add :: "pyfloat \<Rightarrow> pyfloat \<Rightarrow> pyfloat" where
  "f64_add NaN y = NaN"
| "f64_add x NaN = NaN"
| "f64_add (Infinite s) (Infinite t) = (if s = t then Infinite s else NaN)"
| "f64_add (Infinite s) (Finite t n) = Infinite s"
| "f64_add (Finite s m) (Infinite t) = Infinite t"
| "f64_add (Finite s m) (Finite t n) =
     (let r = (if s then - m else m) + (if t then - n else n)
      in if r = 0 then Finite (s \<and> t) 0 else to_f64 (r < 0) \<bar>r\<bar>)"

definition f64_sub :: "pyfloat \<Rightarrow> pyfloat \<Rightarrow> pyfloat" where
  "f64_sub x y = f64_add x (negate y)"

text \<open>Multiplication: the sign is the exclusive or; zero times infinity is NaN.\<close>

fun f64_mul :: "pyfloat \<Rightarrow> pyfloat \<Rightarrow> pyfloat" where
  "f64_mul NaN y = NaN"
| "f64_mul x NaN = NaN"
| "f64_mul (Infinite s) (Infinite t) = Infinite (s \<noteq> t)"
| "f64_mul (Infinite s) (Finite t n) = (if n = 0 then NaN else Infinite (s \<noteq> t))"
| "f64_mul (Finite s m) (Infinite t) = (if m = 0 then NaN else Infinite (s \<noteq> t))"
| "f64_mul (Finite s m) (Finite t n) = to_f64 (s \<noteq> t) (m * n)"

text \<open>
  Division as numpy's \<^verbatim>\<open>float64\<close> has it, where a zero divisor raises nothing: the
  quotient is an infinity, or NaN for \<open>0 / 0\<close>.
\<close>

fun f64_div :: "pyfloat \<Rightarrow> pyfloat \<Rightarrow> pyfloat" where
  "f64_div NaN y = NaN"
| "f64_div x NaN = NaN"
| "f64_div (Infinite s) (Infinite t) = NaN"
| "f64_div (Infinite s) (Finite t n) = Infinite (s \<noteq> t)"
| "f64_div (Finite s m) (Infinite t) = Finite (s \<noteq> t) 0"
| "f64_div (Finite s m) (Finite t n) =
     (if n = 0 then (if m = 0 then NaN else Infinite (s \<noteq> t))
      else to_f64 (s \<noteq> t) (m / n))"

fun f64_abs :: "pyfloat \<Rightarrow> pyfloat" where
  "f64_abs (Finite s m) = Finite False m"
| "f64_abs (Infinite s) = Infinite False"
| "f64_abs NaN = NaN"

text \<open>
  \<^verbatim>\<open>x / y\<close> with the zero divisor made visible, and \<^verbatim>\<open>np.max\<close>, which returns NaN as
  soon as the array holds one.
\<close>

definition py_divide_f64 :: "pyfloat \<Rightarrow> pyfloat \<Rightarrow> py_error + pyfloat" where
  "py_divide_f64 x y = (if f64_eq y f64_zero then Inl ZeroDivision else Inr (f64_div x y))"

definition f64_max :: "pyfloat \<Rightarrow> pyfloat \<Rightarrow> pyfloat" where
  "f64_max x y = (if is_nan x \<or> is_nan y then NaN else if f64_lt x y then y else x)"

definition np_max_f64 :: "pyfloat list \<Rightarrow> py_error + pyfloat" where
  "np_max_f64 xs = (case xs of [] \<Rightarrow> Inl ValueError | x # rest \<Rightarrow> Inr (fold f64_max rest x))"

subsection \<open>Crossing detection and classification on doubles\<close>

text \<open>
  The text of the source as in the first embedding, with every operation on doubles.
\<close>

type_synonym crossing_f64 = "nat \<times> pyfloat \<times> pyfloat"

definition c_value_f64 :: "crossing_f64 \<Rightarrow> pyfloat" where
  "c_value_f64 c = fst (snd c)"

definition c_salience_f64 :: "crossing_f64 \<Rightarrow> pyfloat" where
  "c_salience_f64 c = snd (snd c)"

text \<open>\<^verbatim>\<open>(a[i] * a[i+1] <= 0) and (a[i] != a[i+1])\<close>.\<close>

definition is_crossing_f64 :: "pyfloat \<Rightarrow> pyfloat \<Rightarrow> bool" where
  "is_crossing_f64 a_i a_j = (f64_le (f64_mul a_i a_j) f64_zero \<and> \<not> f64_eq a_i a_j)"

text \<open>
  \<^verbatim>\<open>p[i] + (p[i+1] - p[i]) * (-a[i]) / (a[i+1] - a[i])\<close> and the salience
  \<^verbatim>\<open>np.max(np.abs(p[window_start:i+1]))\<close>.
\<close>

definition crossing_at_f64 ::
  "pyfloat list \<Rightarrow> pyfloat list \<Rightarrow> nat \<Rightarrow> py_error + crossing_f64 option" where
  "crossing_at_f64 a p i =
     bind (getitem a i) (\<lambda>a_i.
     bind (getitem a (i + 1)) (\<lambda>a_j.
       if is_crossing_f64 a_i a_j then
         bind (getitem p i) (\<lambda>p_i.
         bind (getitem p (i + 1)) (\<lambda>p_j.
         bind (py_divide_f64 (f64_mul (f64_sub p_j p_i) (negate a_i)) (f64_sub a_j a_i)) (\<lambda>q.
         bind (np_max_f64 (map f64_abs (slice p (window_start i) (i + 1)))) (\<lambda>m.
           Inr (Some (i, f64_add p_i q, m))))))
       else Inr None))"

fun crossings_loop_f64 ::
  "pyfloat list \<Rightarrow> pyfloat list \<Rightarrow> nat list \<Rightarrow> crossing_f64 list
     \<Rightarrow> py_error + crossing_f64 list" where
  "crossings_loop_f64 a p [] crossings = Inr crossings"
| "crossings_loop_f64 a p (i # rest) crossings =
     (case crossing_at_f64 a p i of
        Inl e \<Rightarrow> Inl e
      | Inr None \<Rightarrow> crossings_loop_f64 a p rest crossings
      | Inr (Some c) \<Rightarrow> crossings_loop_f64 a p rest (crossings @ [c]))"

definition find_crossings_f64 :: "pyfloat list \<Rightarrow> pyfloat list \<Rightarrow> py_error + crossing_f64 list" where
  "find_crossings_f64 a p = crossings_loop_f64 a p (py_range (int (length a) - 1)) []"

text \<open>
  The stable descending sort by salience. A salience is the largest absolute value of a
  window of the paired series, so on series without NaN the keys are ordered as their
  positions on the number line are.
\<close>

definition sorted_desc_f64 :: "crossing_f64 list \<Rightarrow> crossing_f64 list" where
  "sorted_desc_f64 crossings = sort_key (\<lambda>c. - f64_value (c_salience_f64 c)) crossings"

text \<open>
  The selection loop with its test \<^verbatim>\<open>v * main_crossings[0] < 0\<close>, and the end of the
  function with its test \<^verbatim>\<open>main_crossings[0] > 0\<close>.
\<close>

fun select_main_f64 :: "crossing_f64 list \<Rightarrow> pyfloat list \<Rightarrow> pyfloat list" where
  "select_main_f64 [] main_crossings = main_crossings"
| "select_main_f64 (crossing # rest) main_crossings =
     (if main_crossings = [] then select_main_f64 rest (main_crossings @ [c_value_f64 crossing])
      else if length main_crossings = 1 then
        (if f64_lt (f64_mul (c_value_f64 crossing) (hd main_crossings)) f64_zero
         then main_crossings @ [c_value_f64 crossing]
         else select_main_f64 rest main_crossings)
      else select_main_f64 rest main_crossings)"

definition assign_branches_f64 :: "pyfloat list \<Rightarrow> pyfloat \<times> pyfloat" where
  "assign_branches_f64 main_crossings =
     (if length main_crossings \<ge> 2 then
        (if f64_lt f64_zero (main_crossings ! 0) then (main_crossings ! 0, main_crossings ! 1)
         else (main_crossings ! 1, main_crossings ! 0))
      else (f64_zero, f64_zero))"

definition classify_f64 :: "crossing_f64 list \<Rightarrow> pyfloat \<times> pyfloat" where
  "classify_f64 crossings =
     (if crossings = [] then (f64_zero, f64_zero)
      else assign_branches_f64 (select_main_f64 (sorted_desc_f64 crossings) []))"

definition find_main_crossings_f64 ::
  "pyfloat list \<Rightarrow> pyfloat list \<Rightarrow> py_error + pyfloat \<times> pyfloat" where
  "find_main_crossings_f64 a p =
     bind (find_crossings_f64 a p) (\<lambda>crossings. Inr (classify_f64 crossings))"

definition find_main_hysteresis_crossings_f64 ::
  "pyfloat list \<Rightarrow> pyfloat list \<Rightarrow> py_error + pyfloat \<times> pyfloat" where
  "find_main_hysteresis_crossings_f64 h_values b_values = find_main_crossings_f64 h_values b_values"

definition find_main_coercivity_crossings_f64 ::
  "pyfloat list \<Rightarrow> pyfloat list \<Rightarrow> py_error + pyfloat \<times> pyfloat" where
  "find_main_coercivity_crossings_f64 h_values b_values = find_main_crossings_f64 b_values h_values"

text \<open>\<^verbatim>\<open>abs(plus - abs(minus)) / 2\<close>.\<close>

definition uncertainty_f64 :: "pyfloat \<Rightarrow> pyfloat \<Rightarrow> pyfloat" where
  "uncertainty_f64 v_plus v_minus =
     f64_div (f64_abs (f64_sub v_plus (f64_abs v_minus))) (Finite False 2)"

subsection \<open>find_remanence on doubles\<close>

text \<open>
  \<^verbatim>\<open>
  if (h[i] <= 0 <= h[i+1]) or (h[i+1] <= 0 <= h[i]):
      if h[i+1] != h[i]:
          b_at_zero = b[i] + (b[i+1] - b[i]) * (0 - h[i]) / (h[i+1] - h[i])
  \<close>
\<close>

definition remanence_at_f64 ::
  "pyfloat list \<Rightarrow> pyfloat list \<Rightarrow> nat \<Rightarrow> py_error + pyfloat option" where
  "remanence_at_f64 h b i =
     bind (getitem h i) (\<lambda>h_i.
     bind (getitem h (i + 1)) (\<lambda>h_j.
       if (f64_le h_i f64_zero \<and> f64_le f64_zero h_j) \<or> (f64_le h_j f64_zero \<and> f64_le f64_zero h_i)
       then
         (if \<not> f64_eq h_j h_i then
            bind (getitem b i) (\<lambda>b_i.
            bind (getitem b (i + 1)) (\<lambda>b_j.
            bind (py_divide_f64 (f64_mul (f64_sub b_j b_i) (f64_sub f64_zero h_i))
                    (f64_sub h_j h_i)) (\<lambda>q.
              Inr (Some (f64_add b_i q)))))
          else Inr None)
       else Inr None))"

fun remanence_loop_f64 ::
  "pyfloat list \<Rightarrow> pyfloat list \<Rightarrow> nat list \<Rightarrow> pyfloat list \<Rightarrow> py_error + pyfloat list" where
  "remanence_loop_f64 h b [] zs = Inr zs"
| "remanence_loop_f64 h b (i # rest) zs =
     (case remanence_at_f64 h b i of
        Inl e \<Rightarrow> Inl e
      | Inr None \<Rightarrow> remanence_loop_f64 h b rest zs
      | Inr (Some z) \<Rightarrow> remanence_loop_f64 h b rest (zs @ [z]))"

definition zero_crossings_f64 :: "pyfloat list \<Rightarrow> pyfloat list \<Rightarrow> py_error + pyfloat list" where
  "zero_crossings_f64 h b = remanence_loop_f64 h b (py_range (int (length h) - 1)) []"

text \<open>
  \<^verbatim>\<open>np.argmin\<close>: the first index of the smallest element; a NaN counts as the smallest.
\<close>

fun argmin_from_f64 :: "pyfloat list \<Rightarrow> nat \<Rightarrow> nat \<Rightarrow> pyfloat \<Rightarrow> nat" where
  "argmin_from_f64 [] i best best_val = best"
| "argmin_from_f64 (x # xs) i best best_val =
     (if \<not> is_nan best_val \<and> (is_nan x \<or> f64_lt x best_val)
      then argmin_from_f64 xs (i + 1) i x
      else argmin_from_f64 xs (i + 1) best best_val)"

definition np_argmin_f64 :: "pyfloat list \<Rightarrow> py_error + nat" where
  "np_argmin_f64 xs =
     (case xs of [] \<Rightarrow> Inl ValueError | x # rest \<Rightarrow> Inr (argmin_from_f64 rest 1 0 x))"

definition find_remanence_f64 ::
  "pyfloat list \<Rightarrow> pyfloat list \<Rightarrow> py_error + pyfloat \<times> pyfloat" where
  "find_remanence_f64 h b =
     bind (zero_crossings_f64 h b) (\<lambda>zs.
       if length zs \<ge> 2 then Inr (zs ! 0, zs ! 1)
       else if length zs = 1 then Inr (zs ! 0, zs ! 0)
       else bind (np_argmin_f64 (map f64_abs h)) (\<lambda>closest_idx.
            bind (getitem b closest_idx) (\<lambda>v. Inr (v, v))))"

subsection \<open>The area on doubles\<close>

text \<open>
  \<^verbatim>\<open>area += h[i] * b[j]\<close> and \<^verbatim>\<open>area -= h[j] * b[i]\<close>, each rounded, from
  \<^verbatim>\<open>area = 0.0\<close>; then \<^verbatim>\<open>abs(area) / 2.0\<close>.
\<close>

fun shoelace_loop_f64 ::
  "pyfloat list \<Rightarrow> pyfloat list \<Rightarrow> nat \<Rightarrow> nat list \<Rightarrow> pyfloat \<Rightarrow> py_error + pyfloat" where
  "shoelace_loop_f64 h b n [] area = Inr area"
| "shoelace_loop_f64 h b n (i # rest) area =
     (let j = (i + 1) mod n in
      case getitem h i of Inl e \<Rightarrow> Inl e | Inr h_i \<Rightarrow>
      case getitem b j of Inl e \<Rightarrow> Inl e | Inr b_j \<Rightarrow>
      case getitem h j of Inl e \<Rightarrow> Inl e | Inr h_j \<Rightarrow>
      case getitem b i of Inl e \<Rightarrow> Inl e | Inr b_i \<Rightarrow>
        shoelace_loop_f64 h b n rest
          (f64_sub (f64_add area (f64_mul h_i b_j)) (f64_mul h_j b_i)))"

definition calculate_area_shoelace_f64 :: "pyfloat list \<Rightarrow> pyfloat list \<Rightarrow> py_error + pyfloat" where
  "calculate_area_shoelace_f64 h b =
     bind (shoelace_loop_f64 h b (length h) (py_range (int (length h))) f64_zero)
       (\<lambda>area. Inr (f64_div (f64_abs area) (Finite False 2)))"

definition calculate_hysteresis_area_f64 ::
  "pyfloat list \<Rightarrow> pyfloat list \<Rightarrow> py_error + pyfloat" where
  "calculate_hysteresis_area_f64 h_values b_values =
     (if length h_values < 3 \<or> length b_values < 3 then Inr f64_zero
      else bind (shoelace_loop_f64 h_values b_values (length h_values)
                   (py_range (int (length h_values))) f64_zero)
             (\<lambda>area. Inr (f64_div (f64_abs area) (Finite False 2))))"

text \<open>The doubles of a list of numbers that are exactly representable.\<close>

definition f64_of :: "real \<Rightarrow> pyfloat" where
  "f64_of x = Finite (x < 0) \<bar>x\<bar>"

subsection \<open>The specification's conditions, on doubles\<close>

text \<open>Two doubles of opposite sign: one lies below zero and the other above.\<close>

definition opposite_sign_f64 :: "pyfloat \<Rightarrow> pyfloat \<Rightarrow> bool" where
  "opposite_sign_f64 x y =
     ((f64_lt x f64_zero \<and> f64_lt f64_zero y) \<or> (f64_lt f64_zero x \<and> f64_lt y f64_zero))"

text \<open>
  "Fewer than two opposite-sign crossings are found": no two of the crossings found have
  interpolated values of opposite sign.
\<close>

definition fewer_than_two_opposite_f64 :: "crossing_f64 list \<Rightarrow> bool" where
  "fewer_than_two_opposite_f64 cs =
     (\<forall>c\<in>set cs. \<forall>d\<in>set cs. \<not> opposite_sign_f64 (c_value_f64 c) (c_value_f64 d))"

text \<open>
  A series that never reaches or crosses zero: all values above zero, or all below. Its
  values are away from zero when each has a magnitude of at least \<open>2 ^ - 537\<close>: the
  product of two of them is then at least \<open>2 ^ - 1074\<close>, the smallest positive double.
\<close>

definition no_zero_crossing_f64 :: "pyfloat list \<Rightarrow> bool" where
  "no_zero_crossing_f64 a = ((\<forall>x\<in>set a. f64_lt f64_zero x) \<or> (\<forall>x\<in>set a. f64_lt x f64_zero))"

definition away_from_zero :: "pyfloat list \<Rightarrow> bool" where
  "away_from_zero a = (\<forall>x\<in>set a. 1 / 2 ^ 537 \<le> \<bar>f64_value x\<bar>)"

text \<open>
  A double that is an integer of magnitude at most \<open>M\<close>. On vertices of this kind with
  \<open>2 * n * M * M < 2 ^ 53\<close> no operation of the area loop rounds.
\<close>

definition int_vertex :: "nat \<Rightarrow> pyfloat \<Rightarrow> bool" where
  "int_vertex M x =
     (case x of Finite s m \<Rightarrow> 0 \<le> m \<and> m = of_int \<lfloor>m\<rfloor> \<and> m \<le> of_nat M | _ \<Rightarrow> False)"

section \<open>Properties\<close>

subsection \<open>Error plumbing and array primitives\<close>

lemma bind_Inr [simp]: "bind (Inr x) f = f x"
  by (simp add: bind_def)

lemma bind_Inl [simp]: "bind (Inl e) f = Inl e"
  by (simp add: bind_def)

lemma getitem_in_range [simp]: "i < length xs \<Longrightarrow> getitem xs i = Inr (xs ! i)"
  by (simp add: getitem_def)

lemma divide_is_crossing: "is_crossing x y \<Longrightarrow> py_divide n (y - x) = Inr (n / (y - x))"
  by (simp add: py_divide_def is_crossing_def)

lemma window_start_le: "window_start i \<le> i"
  by (simp add: window_start_def)

lemma slice_upt:
  assumes "hi \<le> length xs"
  shows "slice xs lo hi = map (\<lambda>k. xs ! k) [lo..<hi]"
proof -
  have "take hi xs = map (\<lambda>k. xs ! k) [0..<hi]"
    using assms by (intro nth_equalityI) simp_all
  then show ?thesis
    by (simp add: slice_def drop_map)
qed

lemma slice_window_set:
  assumes "i < length p"
  shows "set (slice p (window_start i) (Suc i)) = (\<lambda>k. p ! k) ` {k. window_start i \<le> k \<and> k \<le> i}"
proof -
  have "slice p (window_start i) (Suc i) = map (\<lambda>k. p ! k) [window_start i..<Suc i]"
    by (rule slice_upt) (use assms in simp)
  then have "set (slice p (window_start i) (Suc i)) = (\<lambda>k. p ! k) ` set [window_start i..<Suc i]"
    by (simp only: set_map)
  moreover have "set [window_start i..<Suc i] = {k. window_start i \<le> k \<and> k \<le> i}"
    by auto
  ultimately show ?thesis by simp
qed

lemma np_max_Max: "xs \<noteq> [] \<Longrightarrow> np_max xs = Inr (Max (set xs))"
  by (cases xs) (simp_all add: np_max_def Max.set_eq_fold del: set_simps)

lemma np_max_window:
  assumes "i < length p"
  shows "np_max (map abs (slice p (window_start i) (Suc i))) = Inr (spec_salience p i)"
proof -
  have ne: "map abs (slice p (window_start i) (Suc i)) \<noteq> []"
    using assms window_start_le [of i] by (simp add: slice_upt)
  have "set (map abs (slice p (window_start i) (Suc i))) =
        (\<lambda>k. \<bar>p ! k\<bar>) ` {k. window_start i \<le> k \<and> k \<le> i}"
    using slice_window_set [OF assms] by (simp add: image_image)
  then show ?thesis
    using np_max_Max [OF ne] by (simp add: spec_salience_def)
qed


subsection \<open>What crossing detection computes on series of equal length\<close>

lemma crossing_at_in_range:
  assumes "i + 1 < length a" and "i + 1 < length p"
  shows "crossing_at a p i = Inr (if flagged a i then Some (crossing_record a p i) else None)"
  using assms
  by (simp add: crossing_at_def flagged_def crossing_record_def spec_interpolation_def
      divide_is_crossing np_max_window)




lemma c_fields [simp]:
  "c_index (crossing_record a p i) = i"
  "c_value (crossing_record a p i) = spec_interpolation a p i"
  "c_salience (crossing_record a p i) = spec_salience p i"
  by (simp_all add: crossing_record_def c_index_def c_value_def c_salience_def)



subsection \<open>The selection loop\<close>

lemma opposite_sign_iff: "opposite_sign x y = (x * y < 0)"
  by (auto simp: opposite_sign_def mult_less_0_iff)

lemma select_main_one: "select_main cs [v] = v # second_branch cs v"
  by (induction cs) (simp_all add: second_branch_def opposite_sign_iff)

lemma sorted_desc_set [simp]: "set (sorted_desc cs) = set cs"
  by (simp add: sorted_desc_def)

lemma sorted_desc_Nil [simp]: "(sorted_desc cs = []) = (cs = [])"
  by (metis sorted_desc_def length_sort length_0_conv)

subsection \<open>Negating a dataset\<close>

lemma negate_crossing_fields [simp]:
  "c_index (negate_crossing c) = c_index c"
  "c_value (negate_crossing c) = - c_value c"
  "c_salience (negate_crossing c) = c_salience c"
  by (simp_all add: negate_crossing_def c_index_def c_value_def c_salience_def)

lemma getitem_negated:
  "getitem (map uminus xs) i = (case getitem xs i of Inl e \<Rightarrow> Inl e | Inr (x::real) \<Rightarrow> Inr (- x))"
  by (simp add: getitem_def)

lemma is_crossing_negated [simp]: "is_crossing (- x) (- y) = is_crossing x y"
  by (auto simp: is_crossing_def)

lemma slice_map: "slice (map f xs) lo hi = map f (slice xs lo hi)"
  by (simp add: slice_def take_map drop_map)

lemma abs_negated: "map abs (map uminus (xs :: real list)) = map abs xs"
  by simp

lemma flagged_negated: "i + 1 < length a \<Longrightarrow> flagged (map uminus a) i = flagged a i"
  by (simp add: flagged_def)

lemma interpolation_negated:
  fixes x y u v :: real
  shows "- x + (- y - - x) * (0 - - u) / (- v - - u) = - (x + (y - x) * (0 - u) / (v - u))"
proof -
  have gen: "- x + (- A) * (- B) / (- C) = - (x + A * B / C)" for A B C :: real
    by simp
  have e1: "- y - - x = - (y - x)" and e2: "0 - - u = - (0 - u)" and e3: "- v - - u = - (v - u)"
    by simp_all
  show ?thesis
    unfolding e1 e2 e3 by (rule gen)
qed

lemma spec_interpolation_negated:
  assumes "i + 1 < length a" and "i + 1 < length p"
  shows "spec_interpolation (map uminus a) (map uminus p) i = - spec_interpolation a p i"
proof -
  have "i < length a" and "i < length p"
    using assms by simp_all
  then show ?thesis
    using assms unfolding spec_interpolation_def
    by (simp only: nth_map interpolation_negated)
qed

lemma spec_salience_negated:
  assumes "i < length p"
  shows "spec_salience (map uminus p) i = spec_salience p i"
proof -
  have "(\<lambda>k. \<bar>map uminus p ! k\<bar>) ` {k. window_start i \<le> k \<and> k \<le> i}
        = (\<lambda>k. \<bar>p ! k\<bar>) ` {k. window_start i \<le> k \<and> k \<le> i}"
    using assms by (intro image_cong) auto
  then show ?thesis
    by (simp only: spec_salience_def)
qed

lemma crossing_record_negated:
  assumes "i + 1 < length a" and "i + 1 < length p"
  shows "crossing_record (map uminus a) (map uminus p) i = negate_crossing (crossing_record a p i)"
  using assms
  by (simp add: crossing_record_def negate_crossing_def c_index_def c_value_def c_salience_def
      spec_interpolation_negated spec_salience_negated)

lemma crossing_at_negated:
  "crossing_at (map uminus a) (map uminus p) i =
     (case crossing_at a p i of
        Inl e \<Rightarrow> Inl e
      | Inr None \<Rightarrow> Inr None
      | Inr (Some c) \<Rightarrow> Inr (Some (negate_crossing c)))"
proof (cases "i + 1 < length a")
  case False
  then show ?thesis
    by (simp add: crossing_at_def getitem_def bind_def)
next
  case a: True
  show ?thesis
  proof (cases "i + 1 < length p")
    case True
    have "crossing_at (map uminus a) (map uminus p) i =
          Inr (if flagged (map uminus a) i then Some (crossing_record (map uminus a) (map uminus p) i) else None)"
      by (rule crossing_at_in_range) (use a True in simp_all)
    then show ?thesis
      using a True
      by (simp add: crossing_at_in_range flagged_negated crossing_record_negated)
  next
    case False
    with a show ?thesis
      by (simp add: crossing_at_def getitem_def bind_def)
  qed
qed

lemma crossings_loop_negated:
  "crossings_loop (map uminus a) (map uminus p) js (map negate_crossing acc) =
     (case crossings_loop a p js acc of
        Inl e \<Rightarrow> Inl e | Inr cs \<Rightarrow> Inr (map negate_crossing cs))"
proof (induction js arbitrary: acc)
  case Nil
  then show ?case by simp
next
  case (Cons i js)
  show ?case
  proof (cases "crossing_at a p i")
    case (Inl e)
    then show ?thesis by (simp add: crossing_at_negated)
  next
    case (Inr r)
    show ?thesis
    proof (cases r)
      case None
      with Inr Cons.IH [of acc] show ?thesis by (simp add: crossing_at_negated)
    next
      case (Some c)
      with Inr Cons.IH [of "acc @ [c]"] show ?thesis by (simp add: crossing_at_negated)
    qed
  qed
qed

lemma find_crossings_negated:
  "find_crossings (map uminus a) (map uminus p) =
     (case find_crossings a p of Inl e \<Rightarrow> Inl e | Inr cs \<Rightarrow> Inr (map negate_crossing cs))"
  using crossings_loop_negated [of a p "py_range (int (length a) - 1)" "[]"]
  by (simp add: find_crossings_def)

lemma insort_key_negated:
  "insort_key (\<lambda>c. - c_salience c) (negate_crossing x) (map negate_crossing xs) =
     map negate_crossing (insort_key (\<lambda>c. - c_salience c) x xs)"
  by (induction xs) simp_all

lemma sorted_desc_negated: "sorted_desc (map negate_crossing cs) = map negate_crossing (sorted_desc cs)"
  unfolding sorted_desc_def
  by (induction cs) (simp_all add: insort_key_negated)

lemma select_main_negated:
  "select_main (map negate_crossing cs) (map uminus main) = map uminus (select_main cs main)"
proof (induction cs arbitrary: main)
  case Nil
  then show ?case by simp
next
  case (Cons c cs)
  show ?case
  proof (cases "main = []")
    case True
    with Cons.IH [of "[c_value c]"] show ?thesis by simp
  next
    case False
    with Cons.IH [of main] show ?thesis by (simp add: hd_map)
  qed
qed

lemma second_branch_cases:
  "second_branch cs v = [] \<or> (\<exists>w. second_branch cs v = [w] \<and> opposite_sign w v)"
proof (cases "find (\<lambda>c. opposite_sign (c_value c) v) cs")
  case None
  then show ?thesis by (simp add: second_branch_def)
next
  case (Some c)
  then have "opposite_sign (c_value c) v"
    by (auto simp: find_Some_iff)
  with Some show ?thesis by (simp add: second_branch_def)
qed

lemma select_main_shape:
  "select_main cs [] = [] \<or> (\<exists>v. select_main cs [] = [v])
   \<or> (\<exists>v w. select_main cs [] = [v, w] \<and> opposite_sign w v)"
proof (cases cs)
  case Nil
  then show ?thesis by simp
next
  case (Cons c rest)
  then show ?thesis
    using second_branch_cases [of rest "c_value c"] by (auto simp: select_main_one)
qed

lemma assign_branches_signs:
  "assign_branches (select_main cs []) = (0, 0)
   \<or> (0 < fst (assign_branches (select_main cs [])) \<and> snd (assign_branches (select_main cs [])) < 0)"
  using select_main_shape [of cs]
  by (auto simp: assign_branches_def opposite_sign_def)

lemma assign_branches_negated:
  "assign_branches (map uminus (select_main cs [])) = swap_negate (assign_branches (select_main cs []))"
  using select_main_shape [of cs]
  by (auto simp: assign_branches_def opposite_sign_def swap_negate_def)

lemma classify_negated: "classify (map negate_crossing cs) = swap_negate (classify cs)"
proof (cases "cs = []")
  case True
  then show ?thesis by (simp add: classify_def swap_negate_def)
next
  case False
  have "select_main (sorted_desc (map negate_crossing cs)) [] = map uminus (select_main (sorted_desc cs) [])"
    using select_main_negated [of "sorted_desc cs" "[]"] by (simp add: sorted_desc_negated)
  then show ?thesis
    using False by (simp add: classify_def assign_branches_negated)
qed

lemma classify_signs: "classify cs = (0, 0) \<or> (0 < fst (classify cs) \<and> snd (classify cs) < 0)"
  using assign_branches_signs [of "sorted_desc cs"] by (simp add: classify_def)

lemma find_main_crossings_negated:
  "find_main_crossings (map uminus a) (map uminus p) =
     (case find_main_crossings a p of Inl e \<Rightarrow> Inl e | Inr r \<Rightarrow> Inr (swap_negate r))"
  by (simp add: find_main_crossings_def find_crossings_negated classify_negated split: sum.splits)

lemma find_main_crossings_signs:
  assumes "find_main_crossings a p = Inr (v_plus, v_minus)"
  shows "(v_plus = 0 \<and> v_minus = 0) \<or> (0 < v_plus \<and> v_minus < 0)"
proof -
  from assms obtain cs where "classify cs = (v_plus, v_minus)"
    by (auto simp: find_main_crossings_def bind_def split: sum.splits)
  then show ?thesis
    using classify_signs [of cs] by auto
qed

lemma midpoint_swap_negate:
  assumes "(v_plus = 0 \<and> v_minus = 0) \<or> (0 < v_plus \<and> v_minus < 0)"
  shows "midpoint (- v_minus) (- v_plus) = midpoint v_plus v_minus"
    and "uncertainty (- v_minus) (- v_plus) = uncertainty v_plus v_minus"
  using assms by (auto simp: midpoint_def uncertainty_def)

lemma abs_o_uminus: "(abs \<circ> uminus) = (abs :: real \<Rightarrow> real)"
  by (rule ext) simp

lemma remanence_at_in_range:
  assumes "i + 1 < length h" and "i + 1 < length b"
  shows "remanence_at h b i =
           Inr (if ((h ! i \<le> 0 \<and> 0 \<le> h ! (i + 1)) \<or> (h ! (i + 1) \<le> 0 \<and> 0 \<le> h ! i))
                   \<and> h ! (i + 1) \<noteq> h ! i
                then Some (spec_interpolation h b i) else None)"
  using assms
  by (simp add: remanence_at_def py_divide_def spec_interpolation_def)

lemma remanence_at_negated:
  "remanence_at (map uminus h) (map uminus b) i =
     (case remanence_at h b i of
        Inl e \<Rightarrow> Inl e
      | Inr None \<Rightarrow> Inr None
      | Inr (Some z) \<Rightarrow> Inr (Some (- z)))"
proof (cases "i + 1 < length h")
  case False
  then show ?thesis
    by (simp add: remanence_at_def getitem_def bind_def)
next
  case h: True
  show ?thesis
  proof (cases "i + 1 < length b")
    case True
    have "remanence_at (map uminus h) (map uminus b) i =
           Inr (if ((map uminus h ! i \<le> 0 \<and> 0 \<le> map uminus h ! (i + 1))
                    \<or> (map uminus h ! (i + 1) \<le> 0 \<and> 0 \<le> map uminus h ! i))
                   \<and> map uminus h ! (i + 1) \<noteq> map uminus h ! i
                then Some (spec_interpolation (map uminus h) (map uminus b) i) else None)"
      by (rule remanence_at_in_range) (use h True in simp_all)
    then show ?thesis
      using h True
      by (auto simp: remanence_at_in_range spec_interpolation_negated)
  next
    case False
    with h show ?thesis
      by (simp add: remanence_at_def getitem_def bind_def)
  qed
qed

lemma remanence_loop_negated:
  "remanence_loop (map uminus h) (map uminus b) js (map uminus acc) =
     (case remanence_loop h b js acc of Inl e \<Rightarrow> Inl e | Inr zs \<Rightarrow> Inr (map uminus zs))"
proof (induction js arbitrary: acc)
  case Nil
  then show ?case by simp
next
  case (Cons i js)
  show ?case
  proof (cases "remanence_at h b i")
    case (Inl e)
    then show ?thesis by (simp add: remanence_at_negated)
  next
    case (Inr r)
    show ?thesis
    proof (cases r)
      case None
      with Inr Cons.IH [of acc] show ?thesis by (simp add: remanence_at_negated)
    next
      case (Some z)
      with Inr Cons.IH [of "acc @ [z]"] show ?thesis by (simp add: remanence_at_negated)
    qed
  qed
qed

lemma zero_crossings_negated:
  "zero_crossings (map uminus h) (map uminus b) =
     (case zero_crossings h b of Inl e \<Rightarrow> Inl e | Inr zs \<Rightarrow> Inr (map uminus zs))"
  using remanence_loop_negated [of h b "py_range (int (length h) - 1)" "[]"]
  by (simp add: zero_crossings_def)

lemma find_remanence_negated:
  "find_remanence (map uminus h) (map uminus b) =
     (case find_remanence h b of Inl e \<Rightarrow> Inl e | Inr r \<Rightarrow> Inr (- fst r, - snd r))"
proof (cases "zero_crossings h b")
  case (Inl e)
  then show ?thesis
    by (simp add: find_remanence_def zero_crossings_negated)
next
  case (Inr zs)
  consider "length zs \<ge> 2" | "length zs = 1" | "zs = []"
    by (cases zs) (auto simp: Suc_le_eq)
  then show ?thesis
  proof cases
    case 1
    then have "zs \<noteq> []" and "Suc 0 < length zs" by auto
    with 1 Inr show ?thesis
      by (simp add: find_remanence_def zero_crossings_negated)
  next
    case 2
    with Inr show ?thesis
      by (simp add: find_remanence_def zero_crossings_negated)
  next
    case 3
    with Inr show ?thesis
      by (auto simp: find_remanence_def zero_crossings_negated abs_o_uminus getitem_def bind_def
          split: sum.splits)
  qed
qed

lemma shoelace_loop_negated:
  "shoelace_loop (map uminus h) (map uminus b) n js area = shoelace_loop h b n js area"
  by (induction js arbitrary: area) (auto simp: getitem_def Let_def split: sum.splits)

lemma calculate_area_shoelace_negated:
  "calculate_area_shoelace (map uminus h) (map uminus b) = calculate_area_shoelace h b"
  by (simp add: calculate_area_shoelace_def shoelace_loop_negated)

lemma calculate_hysteresis_area_negated:
  "calculate_hysteresis_area (map uminus h) (map uminus b) = calculate_hysteresis_area h b"
  by (simp add: calculate_hysteresis_area_def shoelace_loop_negated)

text \<open>
  Claim C3, as the code has it. Negating every value of both series
  \<^item> makes each main-loop classifier return \<open>(- minus, - plus)\<close>: the two outputs change
    sign and exchange their places, since the positive one is always reported as \<open>plus\<close>;
    the midpoint \<open>(plus + |minus|) / 2\<close> is unchanged;
  \<^item> makes \<^verbatim>\<open>find_remanence\<close> return \<open>(- plus, - minus)\<close>;
  \<^item> leaves the Shoelace area of both area functions unchanged.
\<close>

theorem negated_dataset:
  "(find_main_coercivity_crossings h b = Inr (v_plus, v_minus) \<longrightarrow>
      find_main_coercivity_crossings (map uminus h) (map uminus b) = Inr (- v_minus, - v_plus)
      \<and> midpoint (- v_minus) (- v_plus) = midpoint v_plus v_minus)
   \<and> (find_main_hysteresis_crossings h b = Inr (v_plus, v_minus) \<longrightarrow>
      find_main_hysteresis_crossings (map uminus h) (map uminus b) = Inr (- v_minus, - v_plus)
      \<and> midpoint (- v_minus) (- v_plus) = midpoint v_plus v_minus)
   \<and> (find_remanence h b = Inr (v_plus, v_minus) \<longrightarrow>
      find_remanence (map uminus h) (map uminus b) = Inr (- v_plus, - v_minus))
   \<and> calculate_hysteresis_area (map uminus h) (map uminus b) = calculate_hysteresis_area h b
   \<and> calculate_area_shoelace (map uminus h) (map uminus b) = calculate_area_shoelace h b"
proof -
  have gen: "find_main_crossings (map uminus a) (map uminus p) = Inr (- v_minus, - v_plus)
      \<and> midpoint (- v_minus) (- v_plus) = midpoint v_plus v_minus"
    if "find_main_crossings a p = Inr (v_plus, v_minus)" for a p
  proof -
    have "find_main_crossings (map uminus a) (map uminus p) = Inr (- v_minus, - v_plus)"
      using that by (simp add: find_main_crossings_negated swap_negate_def)
    moreover have "midpoint (- v_minus) (- v_plus) = midpoint v_plus v_minus"
      by (rule midpoint_swap_negate (1) [OF find_main_crossings_signs [OF that]])
    ultimately show ?thesis by simp
  qed
  have rem: "find_remanence h b = Inr (v_plus, v_minus) \<longrightarrow>
      find_remanence (map uminus h) (map uminus b) = Inr (- v_plus, - v_minus)"
    by (simp add: find_remanence_negated)
  show ?thesis
    using gen [of b h] gen [of h b] rem
    by (simp add: find_main_coercivity_crossings_def find_main_hysteresis_crossings_def
        calculate_hysteresis_area_negated calculate_area_shoelace_negated)
qed

subsection \<open>Concrete runs on a small loop and its negation\<close>

lemma coercivity_example:
  "find_main_coercivity_crossings [120, 100, -120, -115, 120] [10, -10, -10, 10, 10]
     = Inr (110, -235/2)"
  by (simp add: find_main_coercivity_crossings_def find_main_crossings_def find_crossings_def
      py_range_def crossing_at_def is_crossing_def py_divide_def np_max_def slice_def
      window_start_def upt_rec getitem_def classify_def sorted_desc_def c_salience_def
      c_value_def assign_branches_def)

lemma coercivity_example_negated:
  "find_main_coercivity_crossings [-120, -100, 120, 115, -120] [-10, 10, 10, -10, -10]
     = Inr (235/2, -110)"
  by (simp add: find_main_coercivity_crossings_def find_main_crossings_def find_crossings_def
      py_range_def crossing_at_def is_crossing_def py_divide_def np_max_def slice_def
      window_start_def upt_rec getitem_def classify_def sorted_desc_def c_salience_def
      c_value_def assign_branches_def)

lemma remanence_example: "find_remanence [-1, 1] [2, 4] = Inr (3, 3)"
  by (simp add: find_remanence_def zero_crossings_def py_range_def remanence_at_def getitem_def
      py_divide_def)

lemma remanence_example_negated: "find_remanence [1, -1] [-2, -4] = Inr (-3, -3)"
  by (simp add: find_remanence_def zero_crossings_def py_range_def remanence_at_def getitem_def
      py_divide_def)

theorem negated_dataset_witness:
  "find_main_coercivity_crossings [120, 100, -120, -115, 120] [10, -10, -10, 10, 10]
     = Inr (110, -235/2)
   \<and> find_main_coercivity_crossings (map uminus [120, 100, -120, -115, 120])
        (map uminus [10, -10, -10, 10, 10]) = Inr (- (-235/2), - 110)
   \<and> midpoint (- (-235/2)) (- 110) = midpoint 110 (-235/2)"
  using negated_dataset [of "[120, 100, -120, -115, 120]" "[10, -10, -10, 10, 10]" 110 "-235/2"]
    coercivity_example
  by blast

text \<open>
  Claim C3 as stated fails twice. For the classifier, the outputs on the negated loop are
  \<open>(117.5, -110)\<close>, not the negated outputs \<open>(-110, 117.5)\<close>. For
  \<^verbatim>\<open>find_remanence\<close>, which returns the crossings in order of detection, the outputs
  \<open>(3, 3)\<close> become \<open>(-3, -3)\<close> and the midpoint \<open>(plus + |minus|) / 2\<close> changes from
  3 to 0.
\<close>

theorem negation_counterexample:
  "find_main_coercivity_crossings [120, 100, -120, -115, 120] [10, -10, -10, 10, 10]
     = Inr (110, -235/2)
   \<and> find_main_coercivity_crossings (map uminus [120, 100, -120, -115, 120])
        (map uminus [10, -10, -10, 10, 10]) = Inr (235/2, -110)
   \<and> (235/2, -110) \<noteq> (- 110, - (-235/2 :: real))
   \<and> find_remanence [-1, 1] [2, 4] = Inr (3, 3)
   \<and> find_remanence (map uminus [-1, 1]) (map uminus [2, 4]) = Inr (-3, -3)
   \<and> midpoint 3 3 = 3 \<and> midpoint (-3) (-3) = 0"
  using coercivity_example coercivity_example_negated remanence_example remanence_example_negated
  by (simp add: midpoint_def)

subsection \<open>The area loop computes the Shoelace sum\<close>

lemma py_range_length: "py_range (int (length h)) = [0..<length h]"
  by (simp add: py_range_def)

lemma shoelace_loop_in_range:
  assumes "length h = length b" and "\<forall>i\<in>set js. i < length h"
  shows "shoelace_loop h b (length h) js area =
           Inr (area + sum_list (map (shoelace_term h b) js))"
  using assms(2)
proof (induction js arbitrary: area)
  case Nil
  then show ?case by simp
next
  case (Cons i js)
  then have i: "i < length h" and n: "0 < length h"
    by auto
  then have j: "(i + 1) mod length h < length h"
    by simp
  have "shoelace_loop h b (length h) (i # js) area =
        shoelace_loop h b (length h) js (area + shoelace_term h b i)"
    using i j assms(1) by (simp add: Let_def shoelace_term_def algebra_simps)
  also have "\<dots> = Inr (area + shoelace_term h b i + sum_list (map (shoelace_term h b) js))"
    using Cons by simp
  finally show ?case by (simp add: algebra_simps)
qed

lemma shoelace_loop_signed_sum:
  assumes "length h = length b"
  shows "shoelace_loop h b (length h) (py_range (int (length h))) 0 = Inr (signed_sum h b)"
proof -
  have "sum_list (map (shoelace_term h b) [0..<length h]) = signed_sum h b"
    by (simp add: signed_sum_def interv_sum_list_conv_sum_set_nat atLeast0LessThan)
  then show ?thesis
    using shoelace_loop_in_range [OF assms, of "[0..<length h]" 0]
    by (simp add: py_range_length)
qed

lemma calculate_area_shoelace_spec:
  assumes "length h = length b"
  shows "calculate_area_shoelace h b = Inr (spec_area h b)"
  by (simp add: calculate_area_shoelace_def shoelace_loop_signed_sum [OF assms] spec_area_def)

lemma calculate_hysteresis_area_spec:
  assumes "length h = length b"
  shows "calculate_hysteresis_area h b = Inr (if length h < 3 then 0 else spec_area h b)"
proof -
  have "length b < 3 \<longleftrightarrow> length h < 3"
    using assms by simp
  then show ?thesis
    unfolding calculate_hysteresis_area_def
    by (simp only: shoelace_loop_signed_sum [OF assms] spec_area_def bind_Inr) simp
qed

subsection \<open>Cyclic rotation\<close>

lemma sum_cyclic_shift:
  fixes g :: "nat \<Rightarrow> real"
  assumes "0 < n"
  shows "(\<Sum>i<n. g (Suc i mod n)) = (\<Sum>i<n. g i)"
proof -
  obtain m where n: "n = Suc m"
    using assms by (cases n) auto
  have "(\<Sum>i<Suc m. g (Suc i mod Suc m)) = (\<Sum>i<m. g (Suc i mod Suc m)) + g (Suc m mod Suc m)"
    by simp
  also have "(\<Sum>i<m. g (Suc i mod Suc m)) = (\<Sum>i<m. g (Suc i))"
    by (rule sum.cong) simp_all
  also have "g (Suc m mod Suc m) = g 0"
    by simp
  also have "(\<Sum>i<m. g (Suc i)) + g 0 = (\<Sum>i<Suc m. g i)"
    by (simp only: sum.lessThan_Suc_shift add.commute)
  finally show ?thesis
    by (simp only: n)
qed

lemma shoelace_term_rotate1:
  assumes "length h = length b" and "i < length h"
  shows "shoelace_term (rotate1 h) (rotate1 b) i = shoelace_term h b (Suc i mod length h)"
proof -
  let ?n = "length h"
  have "0 < ?n"
    using assms(2) by (cases h) simp_all
  then have j: "Suc i mod ?n < ?n"
    by (rule mod_less_divisor)
  have hb: "length b = ?n"
    using assms(1) by simp
  have "rotate1 h ! i = h ! (Suc i mod ?n)" and "rotate1 b ! i = b ! (Suc i mod ?n)"
    using assms by (simp_all add: nth_rotate1)
  moreover have "rotate1 h ! (Suc i mod ?n) = h ! (Suc (Suc i mod ?n) mod ?n)"
    and "rotate1 b ! (Suc i mod ?n) = b ! (Suc (Suc i mod ?n) mod ?n)"
    using j hb by (simp_all add: nth_rotate1)
  ultimately show ?thesis
    by (simp add: shoelace_term_def)
qed

lemma signed_sum_rotate1:
  assumes "length h = length b"
  shows "signed_sum (rotate1 h) (rotate1 b) = signed_sum h b"
proof (cases "length h = 0")
  case True
  then show ?thesis by (simp add: signed_sum_def)
next
  case False
  have "signed_sum (rotate1 h) (rotate1 b) = (\<Sum>i<length h. shoelace_term h b (Suc i mod length h))"
    unfolding signed_sum_def using assms
    by (simp add: shoelace_term_rotate1)
  also have "\<dots> = (\<Sum>i<length h. shoelace_term h b i)"
    by (rule sum_cyclic_shift) (use False in simp)
  finally show ?thesis
    by (simp add: signed_sum_def)
qed

lemma signed_sum_rotate:
  assumes "length h = length b"
  shows "signed_sum (rotate k h) (rotate k b) = signed_sum h b"
proof (induction k)
  case 0
  then show ?case by simp
next
  case (Suc k)
  have "length (rotate k h) = length (rotate k b)"
    using assms by simp
  from signed_sum_rotate1 [OF this] Suc show ?case by simp
qed

subsection \<open>Reversal of the traversal\<close>

lemma mirror_less: "i < n \<Longrightarrow> mirror n i < n"
  by (auto simp: mirror_def)

lemma mirror_mirror: "i < n \<Longrightarrow> mirror n (mirror n i) = i"
  by (auto simp: mirror_def)

lemma shoelace_term_rev:
  assumes "length h = length b" and "i < length h"
  shows "shoelace_term (rev h) (rev b) i = - shoelace_term h b (mirror (length h) i)"
proof (cases "Suc i < length h")
  case True
  then have m: "mirror (length h) i = length h - Suc (Suc i)"
    by (simp add: mirror_def)
  have s1: "Suc i mod length h = Suc i"
    using True by simp
  have "Suc (length h - Suc (Suc i)) = length h - Suc i"
    using True by simp
  then have s2: "Suc (length h - Suc (Suc i)) mod length h = length h - Suc i"
    using True by simp
  have r1: "rev h ! i = h ! (length h - Suc i)" "rev b ! i = b ! (length h - Suc i)"
    using assms by (simp_all add: rev_nth)
  have r2: "rev h ! Suc i = h ! (length h - Suc (Suc i))"
    "rev b ! Suc i = b ! (length h - Suc (Suc i))"
    using assms True by (simp_all add: rev_nth)
  show ?thesis
    by (simp add: shoelace_term_def m s1 s2 r1 r2)
next
  case False
  with assms(2) have i: "i = length h - 1" and n: "0 < length h"
    by auto
  have m: "mirror (length h) i = length h - 1"
    using False by (simp add: mirror_def)
  have s1: "Suc i mod length h = 0" "Suc (length h - Suc 0) mod length h = 0"
    using i n by simp_all
  have r1: "rev h ! i = h ! 0" "rev b ! i = b ! 0"
    using assms i n by (simp_all add: rev_nth)
  have r2: "rev h ! 0 = h ! (length h - 1)" "rev b ! 0 = b ! (length h - 1)"
    using assms n by (simp_all add: rev_nth)
  show ?thesis
    by (simp add: shoelace_term_def m s1 r1 r2 i [symmetric])
qed

lemma signed_sum_rev:
  assumes "length h = length b"
  shows "signed_sum (rev h) (rev b) = - signed_sum h b"
proof -
  let ?n = "length h"
  have "(\<Sum>i<?n. shoelace_term (rev h) (rev b) i) = (\<Sum>i<?n. - shoelace_term h b i)"
  proof (rule sum.reindex_bij_witness [where i = "mirror ?n" and j = "mirror ?n"])
    fix a assume "a \<in> {..<?n}"
    then show "mirror ?n (mirror ?n a) = a" and "mirror ?n a \<in> {..<?n}"
      by (simp_all add: mirror_mirror mirror_less)
    show "- shoelace_term h b (mirror ?n a) = shoelace_term (rev h) (rev b) a"
      using \<open>a \<in> {..<?n}\<close> shoelace_term_rev [OF assms, of a] by simp
  next
    fix b' assume "b' \<in> {..<?n}"
    then show "mirror ?n (mirror ?n b') = b'" and "mirror ?n b' \<in> {..<?n}"
      by (simp_all add: mirror_mirror mirror_less)
  qed
  then show ?thesis
    by (simp add: signed_sum_def sum_negf)
qed

lemma spec_area_rotate:
  "length h = length b \<Longrightarrow> spec_area (rotate k h) (rotate k b) = spec_area h b"
  by (simp add: spec_area_def signed_sum_rotate)

lemma spec_area_rev:
  "length h = length b \<Longrightarrow> spec_area (rev h) (rev b) = spec_area h b"
  by (simp add: spec_area_def signed_sum_rev)

lemma triangle_area: "calculate_hysteresis_area [0, 4, 0] [0, 0, 3] = Inr 6"
  by (simp add: calculate_hysteresis_area_def py_range_def upt_rec getitem_def Let_def)

lemma triangle_area_rotated: "calculate_hysteresis_area [4, 0, 0] [0, 3, 0] = Inr 6"
  by (simp add: calculate_hysteresis_area_def py_range_def upt_rec getitem_def Let_def)

lemma triangle_area_reversed: "calculate_hysteresis_area [0, 4, 0] [3, 0, 0] = Inr 6"
  by (simp add: calculate_hysteresis_area_def py_range_def upt_rec getitem_def Let_def)

subsection \<open>Header rows of the reader\<close>

lemma read_rows_append:
  "read_rows to_float (xs @ ys) currents fluxes =
     (case read_rows to_float xs currents fluxes of (c, f) \<Rightarrow> read_rows to_float ys c f)"
  by (induction xs arbitrary: currents fluxes) (auto split: option.splits)

lemma read_rows_header:
  assumes "header_row row"
  shows "read_rows to_float (row # rest) currents fluxes = read_rows to_float rest currents fluxes"
  using assms by (auto simp: header_row_def)

lemma read_rows_filter:
  "read_rows to_float (filter (\<lambda>r. \<not> header_row r) rows) currents fluxes
     = read_rows to_float rows currents fluxes"
proof (induction rows arbitrary: currents fluxes)
  case Nil
  then show ?case by simp
next
  case (Cons row rows)
  show ?case
  proof (cases "header_row row")
    case True
    then show ?thesis
      using Cons.IH by (simp add: read_rows_header del: read_rows.simps)
  next
    case False
    have "read_rows to_float (row # filter (\<lambda>r. \<not> header_row r) rows) currents fluxes
          = read_rows to_float (row # rows) currents fluxes"
      by (simp add: Cons.IH split: option.splits)
    then show ?thesis
      using False by (simp del: read_rows.simps)
  qed
qed

text \<open>
  Claim C8. A row whose first token, stripped and lower-cased, is \<open>current\<close> or
  \<open>i/a\<close>, or whose second token is \<open>flux density b\<close> or \<open>b/mt\<close>, contributes nothing
  to the parsed sequences, wherever it stands in the file: the reader returns what it
  returns on the file without that row, and on the file without any such row.
\<close>

theorem header_rows_excluded:
  "read_dataset to_float rows = read_dataset to_float (filter (\<lambda>r. \<not> header_row r) rows)
   \<and> (header_row row \<longrightarrow>
        read_dataset to_float (before @ row # after) = read_dataset to_float (before @ after))"
proof -
  have "read_dataset to_float (before @ row # after) = read_dataset to_float (before @ after)"
    if "header_row row"
    using that
    by (simp add: read_dataset_def read_rows_append read_rows_header del: read_rows.simps)
  then show ?thesis
    by (simp add: read_dataset_def read_rows_filter del: read_rows.simps)
qed

lemma header_row_example: "header_row [''Current '', ''3'']"
  by code_simp

lemma read_dataset_example:
  "read_dataset parse_decimal [[''1.5'', ''2.5''], [''-1'', ''4'']]
     = ([Finite False (3/2), Finite True 1], [Finite False (5/2), Finite False 4])"
  by code_simp

theorem header_rows_excluded_witness:
  "header_row [''Current '', ''3'']
   \<and> read_dataset parse_decimal ([[''1.5'', ''2.5'']] @ [''Current '', ''3''] # [[''-1'', ''4'']])
       = ([Finite False (3/2), Finite True 1], [Finite False (5/2), Finite False 4])"
  using header_rows_excluded [of parse_decimal "[]" "[''Current '', ''3'']"
      "[[''1.5'', ''2.5'']]" "[[''-1'', ''4'']]"]
    header_row_example read_dataset_example
  by simp

section \<open>Properties of the routines in double arithmetic\<close>

subsection \<open>Rounding\<close>

lemma round_half_even_of_int: "round_half_even (of_int j) = j"
  by (simp add: round_half_even_def)

lemma round_half_even_ge_floor: "\<lfloor>x\<rfloor> \<le> round_half_even x"
  by (simp add: round_half_even_def Let_def)

lemma round_half_even_nonneg: "0 \<le> x \<Longrightarrow> 0 \<le> round_half_even x"
  using round_half_even_ge_floor [of x] by (smt (verit) zero_le_floor)

lemma round_half_even_pos: "1 \<le> x \<Longrightarrow> 1 \<le> round_half_even x"
  using round_half_even_ge_floor [of x] by (smt (verit) one_le_floor)

lemma round_half_even_small: "0 \<le> x \<Longrightarrow> x < 1/2 \<Longrightarrow> round_half_even x = 0"
proof -
  assume a: "0 \<le> x" "x < 1/2"
  then have "\<lfloor>x\<rfloor> = 0" by (simp add: floor_eq_iff)
  with a show ?thesis by (simp add: round_half_even_def)
qed

lemma round_mag_zero: "round_mag 0 = 0"
  by (simp add: round_mag_def round_half_even_def)

lemma round_mag_nonneg: "0 \<le> m \<Longrightarrow> 0 \<le> round_mag m"
  unfolding round_mag_def Let_def
  by (intro mult_nonneg_nonneg) (simp_all add: round_half_even_nonneg)

lemma round_mag_underflow:
  assumes "0 \<le> m" "m < 1 / 2 ^ 1075"
  shows "round_mag m = 0"
proof -
  have lt: "m * 2 ^ 1074 < 1/2"
  proof -
    have "m * 2 ^ 1074 < (1 / 2 ^ 1075) * 2 ^ 1074"
      using assms(2) by (intro mult_strict_right_mono) simp_all
    also have "\<dots> = (1/2 :: real)" by (simp add: power_add [symmetric] field_simps)
    finally show ?thesis .
  qed
  have ge: "0 \<le> m * 2 ^ 1074" using assms(1) by simp
  have "\<lfloor>m * 2 ^ 1074\<rfloor> = 0" using lt ge by (simp add: floor_eq_iff)
  then show ?thesis
    using round_half_even_small [OF ge lt] by (simp add: round_mag_def)
qed

lemma round_mag_integral: "\<exists>j. round_mag m = of_int j / 2 ^ 1074"
proof -
  define k where "k = nat (bitlen \<lfloor>m * 2 ^ 1074\<rfloor> - 53)"
  define r where "r = round_half_even (m / (2 ^ k / 2 ^ 1074))"
  have "round_mag m = of_int (r * 2 ^ k) / 2 ^ 1074"
    by (simp add: round_mag_def Let_def k_def r_def)
  then show ?thesis by blast
qed

lemma round_mag_exact:
  assumes m: "m * 2 ^ 1074 = of_int j * 2 ^ e" and j: "0 \<le> j" "j < 2 ^ 53"
  shows "round_mag m = m"
proof (cases "j = 0")
  case True
  with m have "m = 0" by simp
  then show ?thesis by (simp add: round_mag_zero)
next
  case False
  with j have pos: "0 < j" by simp
  define k where "k = nat (bitlen (j * 2 ^ e) - 53)"
  have n: "\<lfloor>m * 2 ^ 1074\<rfloor> = j * 2 ^ e"
  proof -
    have "m * 2 ^ 1074 = of_int (j * 2 ^ e)" using m by simp
    then show ?thesis by (metis floor_of_int)
  qed
  have "bitlen j \<le> 53" using j by (simp add: bitlen_le_iff_power)
  moreover have bl: "bitlen (j * 2 ^ e) = bitlen j + int e" using pos by simp
  ultimately have ke: "k \<le> e" by (simp add: k_def)
  have "m / (2 ^ k / 2 ^ 1074) = m * 2 ^ 1074 / 2 ^ k" by simp
  also have "\<dots> = of_int j * 2 ^ e / 2 ^ k" using m by simp
  also have "\<dots> = of_int j * 2 ^ (e - k)" using ke by (simp add: power_diff)
  also have "\<dots> = of_int (j * 2 ^ (e - k))" by simp
  finally have q: "m / (2 ^ k / 2 ^ 1074) = of_int (j * 2 ^ (e - k))" .
  have "round_mag m = of_int (round_half_even (m / (2 ^ k / 2 ^ 1074))) * (2 ^ k / 2 ^ 1074)"
    unfolding round_mag_def Let_def n k_def by (rule refl)
  also have "\<dots> = of_int (j * 2 ^ (e - k)) * (2 ^ k / 2 ^ 1074)"
    by (simp only: q round_half_even_of_int)
  also have "\<dots> = of_int j * (2 ^ (e - k) * 2 ^ k) / 2 ^ 1074" by simp
  also have "2 ^ (e - k) * 2 ^ k = (2 ::real) ^ e" using ke by (simp add: power_add [symmetric])
  also have "of_int j * 2 ^ e / 2 ^ 1074 = m" using m by (simp add: field_simps)
  finally show ?thesis .
qed

lemma round_mag_positive:
  assumes "1 / 2 ^ 1074 \<le> m"
  shows "0 < round_mag m"
proof -
  define n where "n = \<lfloor>m * 2 ^ 1074\<rfloor>"
  define k where "k = nat (bitlen n - 53)"
  have m1: "1 \<le> m * 2 ^ 1074"
  proof -
    have "(1 / 2 ^ 1074) * 2 ^ 1074 \<le> m * 2 ^ 1074"
      using assms by (intro mult_right_mono) simp_all
    then show ?thesis by simp
  qed
  then have npos: "0 < n" by (simp add: n_def)
  have "bitlen n \<ge> 1" using npos by (simp add: bitlen_ge_iff_power)
  then have kle: "k \<le> nat (bitlen n - 1)" by (simp add: k_def)
  have "(2::int) ^ k \<le> 2 ^ nat (bitlen n - 1)" using kle by (intro power_increasing) simp_all
  also have "\<dots> \<le> n" using bitlen_bounds [OF npos] by simp
  finally have "(2::int) ^ k \<le> n" .
  then have "of_int ((2::int) ^ k) \<le> (of_int n :: real)" by (simp only: of_int_le_iff)
  also have "of_int n \<le> m * 2 ^ 1074" by (simp add: n_def)
  finally have "(2::real) ^ k \<le> m * 2 ^ 1074" by simp
  then have "1 \<le> m * 2 ^ 1074 / 2 ^ k" by (simp add: field_simps)
  then have "1 \<le> m / (2 ^ k / 2 ^ 1074)" by simp
  then have "1 \<le> round_half_even (m / (2 ^ k / 2 ^ 1074))" by (rule round_half_even_pos)
  then have "0 < (of_int (round_half_even (m / (2 ^ k / 2 ^ 1074))) :: real) * (2 ^ k / 2 ^ 1074)"
    by (intro mult_pos_pos) simp_all
  then show ?thesis unfolding round_mag_def Let_def n_def k_def .
qed

lemma bitlen_eqI: "2 ^ (b - 1) \<le> x \<Longrightarrow> x < 2 ^ b \<Longrightarrow> 0 < b \<Longrightarrow> bitlen x = int b"
  by (intro antisym) (simp_all add: bitlen_le_iff_power bitlen_ge_iff_power)

lemma round_mag_binade:
  assumes m: "m * 2 ^ 1074 = of_int j * 2 ^ e" and j: "2 ^ (52 + d) \<le> j" "j < 2 ^ (53 + d)"
  shows "round_mag m = of_int (round_half_even (of_int j / 2 ^ d)) * 2 ^ (d + e) / 2 ^ 1074"
proof -
  have pos: "0 < j" using j(1) by (smt (verit) zero_less_power)
  have n: "\<lfloor>m * 2 ^ 1074\<rfloor> = j * 2 ^ e"
  proof -
    have "m * 2 ^ 1074 = of_int (j * 2 ^ e)" using m by simp
    then show ?thesis by (metis floor_of_int)
  qed
  have "bitlen j = int (53 + d)" using j by (intro bitlen_eqI) simp_all
  then have k: "nat (bitlen (j * 2 ^ e) - 53) = d + e" using pos by simp
  have "m / (2 ^ (d + e) / 2 ^ 1074) = m * 2 ^ 1074 / 2 ^ (d + e)" by simp
  also have "\<dots> = of_int j * 2 ^ e / 2 ^ (d + e)" using m by simp
  also have "\<dots> = of_int j / 2 ^ d" by (simp add: power_add)
  finally have q: "m / (2 ^ (d + e) / 2 ^ 1074) = of_int j / 2 ^ d" .
  have "round_mag m = of_int (round_half_even (m / (2 ^ (d + e) / 2 ^ 1074))) * (2 ^ (d + e) / 2 ^ 1074)"
    unfolding round_mag_def Let_def n k by (rule refl)
  then show ?thesis by (simp only: q times_divide_eq_right)
qed

lemma round_half_even_le: "x \<le> of_int N \<Longrightarrow> round_half_even x \<le> N"
proof -
  assume a: "x \<le> of_int N"
  have f: "\<lfloor>x\<rfloor> \<le> N" using a by (simp add: floor_le_iff)
  show ?thesis
  proof (cases "\<lfloor>x\<rfloor> = N")
    case True
    then have "x - of_int \<lfloor>x\<rfloor> \<le> 0" using a by simp
    then show ?thesis using True by (simp add: round_half_even_def Let_def)
  next
    case False
    with f have "\<lfloor>x\<rfloor> + 1 \<le> N" by simp
    then show ?thesis by (simp add: round_half_even_def Let_def)
  qed
qed

lemma round_mag_idem:
  assumes "0 \<le> m"
  shows "round_mag (round_mag m) = round_mag m"
proof -
  define n where "n = \<lfloor>m * 2 ^ 1074\<rfloor>"
  define k where "k = nat (bitlen n - 53)"
  define r where "r = round_half_even (m / (2 ^ k / 2 ^ 1074))"
  have rm: "round_mag m = of_int r * (2 ^ k / 2 ^ 1074)"
    unfolding round_mag_def Let_def r_def k_def n_def by (rule refl)
  have q: "m / (2 ^ k / 2 ^ 1074) = m * 2 ^ 1074 / 2 ^ k" by simp
  have m0: "0 \<le> m * 2 ^ 1074" using assms by simp
  then have n0: "0 \<le> n" by (simp add: n_def)
  have r0: "0 \<le> r" unfolding r_def using assms by (intro round_half_even_nonneg) simp
  have "bitlen n \<le> 53 + int k" by (simp add: k_def)
  then have "n < 2 ^ nat (53 + int k)" by (simp add: bitlen_le_iff_power)
  then have "n < 2 ^ (53 + k)" by (simp add: nat_add_distrib)
  then have "n + 1 \<le> 2 ^ (53 + k)" by simp
  then have "(of_int (n + 1) :: real) \<le> of_int (2 ^ (53 + k))" by (simp only: of_int_le_iff)
  moreover have "m * 2 ^ 1074 < of_int (n + 1)" unfolding n_def by linarith
  ultimately have "m * 2 ^ 1074 \<le> 2 ^ (53 + k)" by simp
  then have "m * 2 ^ 1074 / 2 ^ k \<le> 2 ^ 53" by (simp add: field_simps power_add)
  then have "m / (2 ^ k / 2 ^ 1074) \<le> of_int (2 ^ 53)" by (simp only: q) simp
  then have r53: "r \<le> 2 ^ 53" unfolding r_def by (rule round_half_even_le)
  have e: "round_mag m * 2 ^ 1074 = of_int r * 2 ^ k" by (simp add: rm)
  show ?thesis
  proof (cases "r = 2 ^ 53")
    case True
    have "round_mag m * 2 ^ 1074 = of_int 1 * 2 ^ (53 + k)"
      using e True by (simp add: power_add)
    then show ?thesis by (rule round_mag_exact) simp_all
  next
    case False
    with r53 have "r < 2 ^ 53" by simp
    with e r0 show ?thesis by (intro round_mag_exact [of _ r k]) simp_all
  qed
qed

subsection \<open>Double arithmetic stays within the doubles\<close>

lemma to_f64_is_f64: "0 \<le> m \<Longrightarrow> is_f64 (to_f64 s m)"
  by (simp add: to_f64_def is_f64_def Let_def round_mag_nonneg round_mag_idem)

lemma is_f64_FiniteD: "is_f64 (Finite s m) \<Longrightarrow> 0 \<le> m"
  by (simp add: is_f64_def)

lemma is_f64_zero [simp]: "is_f64 (Finite s 0)"
  by (simp add: is_f64_def round_mag_zero)

lemma f64_zero_is_f64 [simp]: "is_f64 f64_zero"
  by (simp add: f64_zero_def)

lemma is_f64_Infinite [simp]: "is_f64 (Infinite s)"
  by (simp add: is_f64_def)

lemma is_f64_NaN [simp]: "is_f64 NaN"
  by (simp add: is_f64_def)

lemma negate_is_f64: "is_f64 x \<Longrightarrow> is_f64 (negate x)"
  by (cases x) (simp_all add: is_f64_def)

lemma f64_abs_is_f64: "is_f64 x \<Longrightarrow> is_f64 (f64_abs x)"
  by (cases x) (simp_all add: is_f64_def)

lemma f64_add_is_f64: "is_f64 x \<Longrightarrow> is_f64 y \<Longrightarrow> is_f64 (f64_add x y)"
  by (cases x; cases y) (simp_all add: Let_def to_f64_is_f64)

lemma f64_sub_is_f64: "is_f64 x \<Longrightarrow> is_f64 y \<Longrightarrow> is_f64 (f64_sub x y)"
  by (simp add: f64_sub_def f64_add_is_f64 negate_is_f64)

lemma f64_mul_is_f64: "is_f64 x \<Longrightarrow> is_f64 y \<Longrightarrow> is_f64 (f64_mul x y)"
  by (cases x; cases y) (simp_all add: to_f64_is_f64 is_f64_FiniteD)

lemma f64_div_is_f64: "is_f64 x \<Longrightarrow> is_f64 y \<Longrightarrow> is_f64 (f64_div x y)"
  by (cases x; cases y) (simp_all add: to_f64_is_f64 is_f64_FiniteD)

lemma is_f64_exact:
  "m * 2 ^ 1074 = of_int j * 2 ^ e \<Longrightarrow> 0 \<le> j \<Longrightarrow> j < 2 ^ 53 \<Longrightarrow> m < 2 ^ 1024 \<Longrightarrow> is_f64 (Finite s m)"
proof -
  assume a: "m * 2 ^ 1074 = of_int j * 2 ^ e" "0 \<le> j" "j < 2 ^ 53" "m < 2 ^ 1024"
  have "0 \<le> m * 2 ^ 1074" using a(1,2) by simp
  then have "0 \<le> m" by (simp add: zero_le_mult_iff)
  then show ?thesis using a by (simp add: is_f64_def round_mag_exact [OF a(1-3)])
qed

subsection \<open>Evaluating double arithmetic\<close>

lemma to_f64_exact:
  "m * 2 ^ 1074 = of_int j * 2 ^ e \<Longrightarrow> 0 \<le> j \<Longrightarrow> j < 2 ^ 53 \<Longrightarrow> m < 2 ^ 1024 \<Longrightarrow> to_f64 s m = Finite s m"
  by (simp add: to_f64_def round_mag_exact)

lemma to_f64_exact_at:
  assumes "m * 2 ^ e = of_int \<lfloor>m * 2 ^ e\<rfloor>" "0 \<le> m" "\<lfloor>m * 2 ^ e\<rfloor> < 2 ^ 53" "e \<le> 1074"
    "m < 2 ^ 1024"
  shows "to_f64 s m = Finite s m"
proof -
  have "m * 2 ^ 1074 = (m * 2 ^ e) * 2 ^ (1074 - e)"
    using assms(4) by (simp add: power_add [symmetric])
  also have "\<dots> = of_int \<lfloor>m * 2 ^ e\<rfloor> * 2 ^ (1074 - e)"
    using assms(1) by simp
  finally have "m * 2 ^ 1074 = of_int \<lfloor>m * 2 ^ e\<rfloor> * 2 ^ (1074 - e)" .
  moreover have "0 \<le> \<lfloor>m * 2 ^ e\<rfloor>" using assms(2) by simp
  ultimately show ?thesis using assms(3,5) by (intro to_f64_exact)
qed

lemma to_f64_underflow: "0 \<le> m \<Longrightarrow> m < 1 / 2 ^ 1075 \<Longrightarrow> to_f64 s m = Finite s 0"
  by (simp add: to_f64_def round_mag_underflow)

lemma to_f64_0: "to_f64 s 0 = Finite s 0"
  by (simp add: to_f64_def round_mag_zero)

lemmas eval_f64 = getitem_def Let_def f64_zero_def f64_sub_def f64_lt_def f64_le_def f64_eq_def
  f64_value_def is_nan_def py_divide_f64_def np_max_f64_def f64_max_def slice_def window_start_def
  is_crossing_f64_def c_value_f64_def c_salience_f64_def

lemma to_f64_1: "to_f64 s 1 = Finite s 1"
  by (rule to_f64_exact [of _ 1 1074]) simp_all

lemma to_f64_half: "to_f64 s (1 / 2) = Finite s (1 / 2)"
  by (rule to_f64_exact [of _ 1 1073]) simp_all

lemma to_f64_2p54: "to_f64 s 18014398509481984 = Finite s 18014398509481984"
  by (rule to_f64_exact [of _ 1 1128]) simp_all

lemma to_f64_2p54_minus_1: "to_f64 s 18014398509481983 = Finite s 18014398509481984"
  using round_mag_binade [of 18014398509481983 18014398509481983 1074 1]
  by (simp add: to_f64_def round_half_even_def)

lemma round_mag_overflow:
  assumes "2 ^ 1024 \<le> m"
  shows "2 ^ 1024 \<le> round_mag m"
proof -
  define n where "n = \<lfloor>m * 2 ^ 1074\<rfloor>"
  define B where "B = nat (bitlen n)"
  define k where "k = nat (bitlen n - 53)"
  define x where "x = m / (2 ^ k / 2 ^ 1074)"
  have "(2::real) ^ 1024 * 2 ^ 1074 \<le> m * 2 ^ 1074"
    using assms by (intro mult_right_mono) simp_all
  then have "of_int (2 ^ 2098) \<le> m * 2 ^ 1074"
    by (simp add: power_add [symmetric])
  then have n1: "2 ^ 2098 \<le> n"
    unfolding n_def by (simp only: le_floor_iff)
  then have npos: "0 < n"
    by (smt (verit) zero_less_power)
  have "2099 \<le> bitlen n"
    using n1 by (simp add: bitlen_ge_iff_power)
  then have B: "2099 \<le> B" and kB: "B = 53 + k"
    by (simp_all add: B_def k_def)
  have "(2::int) ^ (52 + k) \<le> n"
    using bitlen_bounds [OF npos] kB by (simp add: B_def nat_diff_distrib)
  then have "(of_int ((2::int) ^ (52 + k)) :: real) \<le> of_int n"
    by (simp only: of_int_le_iff)
  also have "of_int n \<le> m * 2 ^ 1074"
    by (simp add: n_def)
  finally have "(2::real) ^ 52 * 2 ^ k \<le> m * 2 ^ 1074"
    by (simp add: power_add)
  then have "(2::real) ^ 52 \<le> m * 2 ^ 1074 / 2 ^ k"
    by (simp add: field_simps)
  then have "of_int (2 ^ 52) \<le> x"
    by (simp add: x_def)
  then have "2 ^ 52 \<le> \<lfloor>x\<rfloor>"
    by (simp only: le_floor_iff)
  then have "2 ^ 52 \<le> round_half_even x"
    using round_half_even_ge_floor [of x] by linarith
  then have "(of_int (2 ^ 52) :: real) \<le> of_int (round_half_even x)"
    by (simp only: of_int_le_iff)
  then have "(2::real) ^ 52 * (2 ^ k / 2 ^ 1074) \<le> of_int (round_half_even x) * (2 ^ k / 2 ^ 1074)"
    by (intro mult_right_mono) simp_all
  moreover have "round_mag m = of_int (round_half_even x) * (2 ^ k / 2 ^ 1074)"
    unfolding round_mag_def Let_def x_def k_def n_def by (rule refl)
  moreover have "(2::real) ^ 1024 \<le> 2 ^ 52 * (2 ^ k / 2 ^ 1074)"
  proof -
    have "1024 + 1074 \<le> 52 + k" using B kB by simp
    then have "(2::real) ^ (1024 + 1074) \<le> 2 ^ (52 + k)"
      by (intro power_increasing) simp_all
    then have "(2::real) ^ 1024 * 2 ^ 1074 \<le> 2 ^ 52 * 2 ^ k"
      by (simp only: power_add)
    then show ?thesis by (simp add: field_simps)
  qed
  ultimately show ?thesis by linarith
qed

lemma to_f64_overflow: "2 ^ 1024 \<le> m \<Longrightarrow> to_f64 s m = Infinite s"
  using round_mag_overflow [of m] by (simp add: to_f64_def Let_def)

lemma is_f64_at:
  assumes "m * 2 ^ e = of_int \<lfloor>m * 2 ^ e\<rfloor>" "0 \<le> m" "\<lfloor>m * 2 ^ e\<rfloor> < 2 ^ 53" "e \<le> 1074"
    "m < 2 ^ 1024"
  shows "is_f64 (Finite s m)"
  using to_f64_exact_at [OF assms, of s] to_f64_is_f64 [OF assms(2), of s] by simp

subsection \<open>Two vertices without the length guard\<close>

text \<open>
  Claim C7. With fewer than three vertices the enclosed area is to be 0. The guarded
  \<^verbatim>\<open>calculate_hysteresis_area\<close> returns 0.0 on the two vertices
  \<open>h = [1.0, 134217728.0]\<close>, \<open>b = [134217728.0, 1.0]\<close>; the unguarded
  \<^verbatim>\<open>calculate_area_shoelace\<close> returns 0.5 there, because \<open>1 - 2 ^ 54\<close> rounds to
  \<open>- 2 ^ 54\<close> and the sum no longer cancels.
\<close>

theorem two_vertex_area_not_zero:
  "calculate_area_shoelace_f64 [Finite False 1, Finite False 134217728]
     [Finite False 134217728, Finite False 1] = Inr (Finite False (1 / 2))
   \<and> calculate_hysteresis_area_f64 [Finite False 1, Finite False 134217728]
     [Finite False 134217728, Finite False 1] = Inr f64_zero"
  by (simp add: calculate_area_shoelace_f64_def calculate_hysteresis_area_f64_def py_range_def
      upt_rec getitem_def Let_def f64_zero_def f64_sub_def
      to_f64_1 to_f64_half to_f64_2p54 to_f64_2p54_minus_1)

subsection \<open>The sign test of the selection loop\<close>

lemma small_opposite_crossings:
  "find_crossings_f64 [Finite True 1, Finite False 1, Finite True 1]
     [Finite False (1 / 2 ^ 600), Finite False (1 / 2 ^ 600), Finite True (3 / 2 ^ 600)]
   = Inr [(0, Finite False (1 / 2 ^ 600), Finite False (1 / 2 ^ 600)),
          (1, Finite True (1 / 2 ^ 600), Finite False (1 / 2 ^ 600))]"
  by (simp add: find_crossings_f64_def crossing_at_f64_def py_range_def upt_rec eval_f64
      to_f64_0 to_f64_exact_at [of _ 0] to_f64_exact_at [of _ 600])

text \<open>
  Claim C1. The second branch value is to be the value of the first crossing, in
  descending salience, whose interpolated value has the opposite sign from the first. On
  \<open>h = [-1, 1, -1]\<close>, \<open>b = [2 ^ - 600, 2 ^ - 600, - 3 * 2 ^ - 600]\<close> two crossings are
  found, with the values \<open>2 ^ - 600\<close> and \<open>- 2 ^ - 600\<close>; their product underflows to
  \<open>-0.0\<close>, the test \<^verbatim>\<open>v * main_crossings[0] < 0\<close> fails, the second crossing is
  skipped and both classifiers return \<open>(0.0, 0.0)\<close>.
\<close>

theorem opposite_sign_crossing_skipped:
  "find_crossings_f64 [Finite True 1, Finite False 1, Finite True 1]
     [Finite False (1 / 2 ^ 600), Finite False (1 / 2 ^ 600), Finite True (3 / 2 ^ 600)]
   = Inr [(0, Finite False (1 / 2 ^ 600), Finite False (1 / 2 ^ 600)),
          (1, Finite True (1 / 2 ^ 600), Finite False (1 / 2 ^ 600))]
   \<and> f64_mul (Finite True (1 / 2 ^ 600)) (Finite False (1 / 2 ^ 600)) = Finite True 0
   \<and> find_main_hysteresis_crossings_f64 [Finite True 1, Finite False 1, Finite True 1]
     [Finite False (1 / 2 ^ 600), Finite False (1 / 2 ^ 600), Finite True (3 / 2 ^ 600)]
   = Inr (f64_zero, f64_zero)
   \<and> find_main_coercivity_crossings_f64
     [Finite False (1 / 2 ^ 600), Finite False (1 / 2 ^ 600), Finite True (3 / 2 ^ 600)]
     [Finite True 1, Finite False 1, Finite True 1]
   = Inr (f64_zero, f64_zero)"
proof -
  have m: "f64_mul (Finite True (1 / 2 ^ 600)) (Finite False (1 / 2 ^ 600)) = Finite True 0"
    by (simp add: to_f64_underflow)
  have "find_main_crossings_f64 [Finite True 1, Finite False 1, Finite True 1]
     [Finite False (1 / 2 ^ 600), Finite False (1 / 2 ^ 600), Finite True (3 / 2 ^ 600)]
     = Inr (f64_zero, f64_zero)"
    unfolding find_main_crossings_f64_def small_opposite_crossings
    by (simp add: classify_f64_def sorted_desc_f64_def assign_branches_f64_def eval_f64
        to_f64_underflow)
  with m show ?thesis
    unfolding find_main_hysteresis_crossings_f64_def find_main_coercivity_crossings_f64_def
      small_opposite_crossings
    by simp
qed

subsection \<open>The sign test of crossing detection\<close>



subsection \<open>The single-crossing case of find_remanence\<close>

lemma getitem_is_f64: "list_all is_f64 xs \<Longrightarrow> getitem xs i = Inr x \<Longrightarrow> is_f64 x"
  by (auto simp: getitem_def list_all_length split: if_splits)

lemma py_divide_f64_is_f64:
  "is_f64 x \<Longrightarrow> is_f64 y \<Longrightarrow> py_divide_f64 x y = Inr q \<Longrightarrow> is_f64 q"
  by (auto simp: py_divide_f64_def f64_div_is_f64 split: if_splits)

lemma bind_eq_Inr: "bind m f = Inr y \<longleftrightarrow> (\<exists>x. m = Inr x \<and> f x = Inr y)"
  by (cases m) (simp_all add: bind_def)

lemma remanence_at_f64_is_f64:
  assumes "list_all is_f64 h" "list_all is_f64 b" "remanence_at_f64 h b i = Inr (Some z)"
  shows "is_f64 z"
proof -
  from assms(3) obtain h_i h_j b_i b_j q
    where g: "getitem h i = Inr h_i" "getitem h (i + 1) = Inr h_j"
      "getitem b i = Inr b_i" "getitem b (i + 1) = Inr b_j"
      and q: "py_divide_f64 (f64_mul (f64_sub b_j b_i) (f64_sub f64_zero h_i)) (f64_sub h_j h_i) = Inr q"
      and z: "z = f64_add b_i q"
    unfolding remanence_at_f64_def
    by (auto simp: bind_eq_Inr split: if_splits)
  have e: "is_f64 h_i" "is_f64 h_j" "is_f64 b_i" "is_f64 b_j"
    using g assms(1,2) by (auto intro: getitem_is_f64)
  have "is_f64 q"
    using q e by (intro py_divide_f64_is_f64 [OF _ _ q] f64_mul_is_f64 f64_sub_is_f64) simp_all
  then show ?thesis
    using e z by (simp add: f64_add_is_f64)
qed

lemma remanence_loop_f64_values:
  assumes "remanence_loop_f64 h b js acc = Inr zs" "z \<in> set zs"
  shows "z \<in> set acc \<or> (\<exists>i\<in>set js. remanence_at_f64 h b i = Inr (Some z))"
  using assms
proof (induction js arbitrary: acc)
  case Nil
  then show ?case by simp
next
  case (Cons j js)
  show ?case
  proof (cases "remanence_at_f64 h b j")
    case (Inl e)
    with Cons.prems show ?thesis by simp
  next
    case (Inr r)
    show ?thesis
    proof (cases r)
      case None
      with Inr Cons.prems have "remanence_loop_f64 h b js acc = Inr zs" by simp
      from Cons.IH [OF this Cons.prems(2)] show ?thesis by auto
    next
      case (Some z')
      with Inr Cons.prems have "remanence_loop_f64 h b js (acc @ [z']) = Inr zs" by simp
      from Cons.IH [OF this Cons.prems(2)] Inr Some show ?thesis by auto
    qed
  qed
qed

lemma uncertainty_f64_same:
  assumes "is_f64 z" "is_finite z" "f64_le f64_zero z"
  shows "uncertainty_f64 z z = f64_zero"
proof -
  from assms(2) obtain s m where z: "z = Finite s m"
    by (cases z) (simp_all add: is_finite_def)
  with assms(1) have m: "0 \<le> m" by (simp add: is_f64_def)
  show ?thesis
  proof (cases s)
    case False
    with z show ?thesis
      by (simp add: uncertainty_f64_def f64_sub_def f64_zero_def to_f64_0)
  next
    case True
    with z assms(3) m have "m = 0"
      by (simp add: f64_le_def f64_value_def f64_zero_def is_nan_def)
    with z True show ?thesis
      by (simp add: uncertainty_f64_def f64_sub_def f64_zero_def to_f64_0)
  qed
qed

text \<open>
  Claim C10. When the detection loop of \<^verbatim>\<open>find_remanence\<close> ends with exactly one
  crossing, the function returns the value interpolated there for both outputs, and the
  uncertainty \<open>|plus - |minus|| / 2\<close> of that pair is 0 whenever the value is finite and
  not negative.
\<close>

theorem single_crossing_remanence:
  assumes "zero_crossings_f64 h b = Inr [z]" and "list_all is_f64 h" and "list_all is_f64 b"
  shows "find_remanence_f64 h b = Inr (z, z)
       \<and> (\<exists>i. remanence_at_f64 h b i = Inr (Some z))
       \<and> (is_finite z \<and> f64_le f64_zero z \<longrightarrow> uncertainty_f64 z z = f64_zero)"
proof -
  have 1: "find_remanence_f64 h b = Inr (z, z)"
    by (simp add: find_remanence_f64_def assms(1))
  have 2: "\<exists>i. remanence_at_f64 h b i = Inr (Some z)"
    using remanence_loop_f64_values [of h b "py_range (int (length h) - 1)" "[]" "[z]" z] assms(1)
    by (auto simp: zero_crossings_f64_def)
  then have "is_f64 z"
    using remanence_at_f64_is_f64 [OF assms(2,3)] by blast
  then have 3: "is_finite z \<and> f64_le f64_zero z \<longrightarrow> uncertainty_f64 z z = f64_zero"
    by (simp add: uncertainty_f64_same)
  from 1 2 3 show ?thesis by blast
qed

lemma zero_crossings_f64_example:
  "zero_crossings_f64 [Finite True 1, Finite False 1] [Finite False 2, Finite False 4]
     = Inr [Finite False 3]"
  by (simp add: zero_crossings_f64_def remanence_at_f64_def py_range_def eval_f64
      to_f64_exact_at [of _ 0])

theorem single_crossing_remanence_witness:
  "zero_crossings_f64 [Finite True 1, Finite False 1] [Finite False 2, Finite False 4]
     = Inr [Finite False 3]
   \<and> list_all is_f64 [Finite True 1, Finite False 1]
   \<and> list_all is_f64 [Finite False 2, Finite False 4]
   \<and> find_remanence_f64 [Finite True 1, Finite False 1] [Finite False 2, Finite False 4]
     = Inr (Finite False 3, Finite False 3)
   \<and> is_finite (Finite False 3) \<and> f64_le f64_zero (Finite False 3)
   \<and> uncertainty_f64 (Finite False 3) (Finite False 3) = f64_zero"
proof -
  have h: "list_all is_f64 [Finite True 1, Finite False 1]"
    and b: "list_all is_f64 [Finite False 2, Finite False 4]"
    by (simp_all add: is_f64_at [of _ 0])
  have f: "is_finite (Finite False 3) \<and> f64_le f64_zero (Finite False 3)"
    by (simp add: is_finite_def eval_f64)
  from single_crossing_remanence [OF zero_crossings_f64_example h b] zero_crossings_f64_example h b f
  show ?thesis by simp
qed

text \<open>
  Claim C10 as stated asks for the uncertainty 0 whenever the single value is not
  negative. On \<open>h = [-1, 1]\<close>, \<open>b = [- 2 ^ 1023, 2 ^ 1023]\<close> the difference
  \<^verbatim>\<open>b[i+1] - b[i]\<close> overflows, the single crossing has the value \<open>inf\<close>, which is not
  negative, and \<open>inf - |inf|\<close> is NaN.
\<close>

theorem single_crossing_overflow_counterexample:
  "zero_crossings_f64 [Finite True 1, Finite False 1] [Finite True (2 ^ 1023), Finite False (2 ^ 1023)]
     = Inr [Infinite False]
   \<and> find_remanence_f64 [Finite True 1, Finite False 1]
        [Finite True (2 ^ 1023), Finite False (2 ^ 1023)] = Inr (Infinite False, Infinite False)
   \<and> f64_le f64_zero (Infinite False)
   \<and> uncertainty_f64 (Infinite False) (Infinite False) = NaN
   \<and> uncertainty_f64 (Infinite False) (Infinite False) \<noteq> f64_zero"
proof -
  have z: "zero_crossings_f64 [Finite True 1, Finite False 1]
      [Finite True (2 ^ 1023), Finite False (2 ^ 1023)] = Inr [Infinite False]"
    by (simp add: zero_crossings_f64_def remanence_at_f64_def py_range_def eval_f64
        to_f64_overflow to_f64_exact_at [of _ 0])
  show ?thesis
    unfolding find_remanence_f64_def z by (simp add: uncertainty_f64_def eval_f64)
qed

end
